theory Spec2Isabelle
  imports Complex_Main "HOL-Library.Char_ord" "HOL-Library.List_Lexorder"
    "HOL-Library.Option_ord" "HOL-Library.Product_Lexorder"
begin

section \<open>The relational store (backend/app/database.py)\<close>

text \<open>
  Each table of \<^verbatim>\<open>SCHEMA_SQL\<close> is a list of rows, a row is a record of the columns
  the modelled code reads or writes. A nullable column is an \<open>option\<close>, \<open>NULL\<close> is
  \<open>None\<close>. \<open>TEXT\<close> is \<open>string\<close>, \<open>INTEGER\<close> is \<open>int\<close>, and a \<open>REAL\<close>
  value is the real number it denotes (NaN and the infinities are outside the model).
  The columns \<open>total_drawings\<close> and \<open>analyzed_count\<close> have \<open>DEFAULT 0\<close> and only ever
  receive integers, so they are plain \<open>int\<close>.
\<close>

record drawing =
  d_id :: int
  d_user_id :: int
  d_filename :: string
  d_filepath :: string
  d_drawn_date :: "string option"
  d_file_ext :: "string option"
  d_analysis_text :: "string option"
  d_analysis_json :: "string option"
  d_analyzed_at :: "string option"

record analysis =
  r_id :: int
  r_user_id :: int
  r_status :: string
  r_phase :: "string option"
  r_total_drawings :: int
  r_analyzed_count :: int
  r_error_message :: "string option"
  r_model_used :: "string option"
  r_completed_at :: "string option"

record lens =
  l_id :: int
  l_user_id :: int
  l_archive_analysis_id :: "int option"
  l_name :: string
  l_description :: string
  l_sort_order :: int
  l_raw_claude_output :: "string option"

record link =
  k_id :: int
  k_lens_id :: int
  k_drawing_id :: int
  k_relevance_score :: real
  k_annotation :: "string option"
  k_annotation_generated_at :: "string option"

text \<open>
  What a print statement writes. The pipeline only ever prints; the model keeps the
  events, in order, in the field \<open>log\<close> of the world.
\<close>

datatype log_event =
    LogResized nat nat
  | LogCouldNotLoad string
  | LogClaudeCallFailed nat string
  | LogBatchAnalyzed int nat
  | LogNoAnalyzedDrawings
  | LogNoLensesReturned string
  | LogLensStored "string option" nat
  | LogAnnotationCallFailed string
  | LogAnnotationFailed int string
  | LogJsonFailedList string
  | LogJsonFailedDict string
  | LogPipelineFailed string

text \<open>
  The world: the tables, the \<open>sqlite_sequence\<close> counters of the three
  \<open>AUTOINCREMENT\<close> keys the modelled code inserts into, standard output, and the
  history of the table \<open>archive_analyses\<close> as it stood at each \<open>db.commit()\<close> that
  followed a write (oldest first). \<open>users\<close> holds the ids of the table \<open>users\<close>: the
  other tables refer to them, and foreign keys are enforced
  (\<^verbatim>\<open>PRAGMA foreign_keys = ON\<close>).
\<close>

record world =
  users :: "int list"
  drawings :: "drawing list"
  archive_analyses :: "analysis list"
  lenses :: "lens list"
  lens_drawing_links :: "link list"
  seq_analyses :: int
  seq_lenses :: int
  seq_links :: int
  log :: "log_event list"
  committed :: "analysis list list"

definition commit :: "world \<Rightarrow> world" where
  "commit w = w\<lparr>committed := committed w @ [archive_analyses w]\<rparr>"

definition print :: "log_event \<Rightarrow> world \<Rightarrow> world" where
  "print e w = w\<lparr>log := log w @ [e]\<rparr>"

section \<open>Settings (backend/app/config.py)\<close>

record settings =
  model_name :: string
  batch_size :: int
  max_tokens_per_image :: int
  max_tokens_lens_discovery :: int
  max_tokens_annotation_batch :: int
  relevance_threshold :: real

section \<open>Annotation status (backend/app/routers/lenses.py)\<close>

record annotation_status_response =
  asr_lens_id :: int
  asr_total :: nat
  asr_ready :: nat
  asr_status :: string

text \<open>
  The two \<open>SELECT COUNT(*)\<close> of \<open>get_annotation_status\<close>: the rows of the join of
  \<open>lens_drawing_links\<close> with \<open>drawings\<close> on the drawing id, filtered on the lens id and
  the relevance threshold (and, for \<open>ready\<close>, on a non-null annotation).
\<close>

definition count_total :: "settings \<Rightarrow> world \<Rightarrow> int \<Rightarrow> nat" where
  "count_total st w lens_id =
     length [(ldl, d). ldl \<leftarrow> lens_drawing_links w, d \<leftarrow> drawings w,
               d_id d = k_drawing_id ldl,
               k_lens_id ldl = lens_id \<and> relevance_threshold st \<le> k_relevance_score ldl]"

definition count_ready :: "settings \<Rightarrow> world \<Rightarrow> int \<Rightarrow> nat" where
  "count_ready st w lens_id =
     length [(ldl, d). ldl \<leftarrow> lens_drawing_links w, d \<leftarrow> drawings w,
               d_id d = k_drawing_id ldl,
               k_lens_id ldl = lens_id \<and> relevance_threshold st \<le> k_relevance_score ldl
                 \<and> k_annotation ldl \<noteq> None]"

text \<open>The \<open>if\<close>/\<open>elif\<close> chain that names the status, in the source's order.\<close>

definition status_of_counts :: "nat \<Rightarrow> nat \<Rightarrow> string" where
  "status_of_counts n_total n_ready =
     (if n_total = 0 then ''empty''
      else if n_ready = 0 then ''pending''
      else if n_ready < n_total then ''generating''
      else ''complete'')"

definition get_annotation_status ::
  "settings \<Rightarrow> world \<Rightarrow> int \<Rightarrow> int \<Rightarrow> annotation_status_response" where
  "get_annotation_status st w lens_id user_id =
     (let n_total = count_total st w lens_id;
          n_ready = count_ready st w lens_id
      in \<lparr>asr_lens_id = lens_id, asr_total = n_total, asr_ready = n_ready,
          asr_status = status_of_counts n_total n_ready\<rparr>)"

section \<open>The collaborators of the pipeline\<close>

text \<open>
  A value of \<open>json.loads\<close>. A Python \<open>list\<close> is \<open>JArr\<close>, a \<open>dict\<close> is \<open>JObj\<close> (its
  items, in order, one per key), \<open>None\<close> is \<open>JNull\<close>.
\<close>

datatype json =
    JNull
  | JBool bool
  | JInt int
  | JFloat real
  | JStr string
  | JArr "json list"
  | JObj "(string \<times> json) list"

text \<open>The exceptions the modelled code can raise or let through.\<close>

datatype exn =
    AttributeError
  | TypeError
  | ValueError
  | IntegrityError
  | BindingError
  | RuntimeError string

text \<open>
  A call to the inference service either raises (with the text of the exception) or
  returns the text of the model's answer.
\<close>

datatype call_result = Raises string | Responds string

text \<open>
  Everything the pipeline consumes from outside the repository or from the
  environment is a field of \<open>env\<close>: the settings, the clock behind
  \<^verbatim>\<open>datetime('now')\<close>, the file system (\<open>read_file\<close>: \<open>None\<close> when opening or reading
  raises), the image library behind \<open>_prepare_image_bytes\<close> (\<open>resize_image\<close>: \<open>None\<close>
  when it raises), the two calls of the inference client, \<open>json.loads\<close> (\<open>None\<close> when it
  raises \<open>JSONDecodeError\<close>), \<open>json.dumps\<close>, \<open>float(...)\<close> on a JSON value (\<open>Inl\<close> the
  exception when it raises), the text SQLite stores for a number bound to a \<open>TEXT\<close> column, the three
  rendered prompt templates, and \<open>str(e)\<close> of an exception.
\<close>

record env =
  settings_of :: settings
  now :: string
  read_file :: "string \<Rightarrow> string option"
  resize_image :: "string \<Rightarrow> string option"
  analyze_batch :: "(string \<times> string \<times> string) list \<Rightarrow> string \<Rightarrow> int \<Rightarrow> call_result"
  synthesize_text :: "string \<Rightarrow> int \<Rightarrow> call_result"
  json_loads :: "string \<Rightarrow> json option"
  json_dumps :: "json \<Rightarrow> string"
  py_float :: "json \<Rightarrow> exn + real"
  number_text :: "json \<Rightarrow> string"
  render_batch_analysis :: string
  render_lens_discovery :: "string \<Rightarrow> nat \<Rightarrow> string \<Rightarrow> string"
  render_lens_annotation :: "string \<Rightarrow> string \<Rightarrow> string \<Rightarrow> string"
  exn_message :: "exn \<Rightarrow> string"

section \<open>Tolerant JSON parsing (backend/app/services/archive_analyzer.py)\<close>

subsection \<open>The string operations of Python the parser uses\<close>

text \<open>
  A \<open>char\<close> stands for a code point below 256. \<open>str.strip()\<close> removes the code points
  that \<open>str.isspace\<close> accepts: in that range 9 to 13, 28 to 32, 133 and 160.
\<close>

definition py_isspace :: "char \<Rightarrow> bool" where
  "py_isspace c = (of_char c \<in> set [9, 10, 11, 12, 13, 28, 29, 30, 31, 32, 133, 160 :: nat])"

definition py_strip :: "string \<Rightarrow> string" where
  "py_strip s = rev (dropWhile py_isspace (rev (dropWhile py_isspace s)))"

definition py_startswith :: "string \<Rightarrow> string \<Rightarrow> bool" where
  "py_startswith s p = (take (length p) s = p)"

definition py_endswith :: "string \<Rightarrow> string \<Rightarrow> bool" where
  "py_endswith s p = (length p \<le> length s \<and> drop (length s - length p) s = p)"

text \<open>\<open>s.find(sub)\<close>: the lowest index where \<open>sub\<close> occurs, or \<open>-1\<close>.\<close>

fun py_find_at :: "string \<Rightarrow> string \<Rightarrow> nat \<Rightarrow> int" where
  "py_find_at [] sub i = (if sub = [] then int i else - 1)"
| "py_find_at (c # cs) sub i =
     (if py_startswith (c # cs) sub then int i else py_find_at cs sub (Suc i))"

definition py_find :: "string \<Rightarrow> string \<Rightarrow> int" where
  "py_find s sub = py_find_at s sub 0"

text \<open>\<open>s.rfind(sub)\<close>: the highest index where \<open>sub\<close> occurs, or \<open>-1\<close>.\<close>

fun py_rfind_at :: "string \<Rightarrow> string \<Rightarrow> nat \<Rightarrow> int \<Rightarrow> int" where
  "py_rfind_at [] sub i best = (if sub = [] then int i else best)"
| "py_rfind_at (c # cs) sub i best =
     py_rfind_at cs sub (Suc i) (if py_startswith (c # cs) sub then int i else best)"

definition py_rfind :: "string \<Rightarrow> string \<Rightarrow> int" where
  "py_rfind s sub = py_rfind_at s sub 0 (- 1)"

text \<open>The slices \<open>s[a:]\<close> and \<open>s[:b]\<close>; a negative index counts from the end.\<close>

definition slice_from :: "string \<Rightarrow> int \<Rightarrow> string" where
  "slice_from s a = (if a < 0 then drop (nat (int (length s) + a)) s else drop (nat a) s)"

definition slice_to :: "string \<Rightarrow> int \<Rightarrow> string" where
  "slice_to s b = (if b < 0 then take (nat (int (length s) + b)) s else take (nat b) s)"

text \<open>
  \<^verbatim>\<open>re.search(r'\[.*\]', text, re.DOTALL)\<close> and its sibling for braces: the match at the
  leftmost position where the pattern matches. There the match starts with the opening
  character, and \<open>.*\<close>, greedy and matching every character, runs to the last closing
  character after it.
\<close>

definition greedy_upto :: "char \<Rightarrow> string \<Rightarrow> string" where
  "greedy_upto b cs = rev (dropWhile (\<lambda>c. c \<noteq> b) (rev cs))"

fun re_search_between :: "char \<Rightarrow> char \<Rightarrow> string \<Rightarrow> string option" where
  "re_search_between a b [] = None"
| "re_search_between a b (c # cs) =
     (if c = a \<and> b \<in> set cs then Some (c # greedy_upto b cs)
      else re_search_between a b cs)"

subsection \<open>The parser\<close>

definition fence :: string where
  "fence = [CHR 0x60, CHR 0x60, CHR 0x60]"

definition newline :: string where
  "newline = [CHR 0x0A]"

definition strip_markdown_fences :: "string \<Rightarrow> string" where
  "strip_markdown_fences text0 =
     (let text1 = py_strip text0;
          text2 = (if py_startswith text1 fence
                   then slice_from text1 (py_find text1 newline + 1) else text1);
          text3 = (if py_endswith text2 fence
                   then slice_to text2 (py_rfind text2 fence) else text2)
      in py_strip text3)"

text \<open>
  \<open>_parse_json_list\<close> and \<open>_parse_json_dict\<close>. The only exception \<open>json.loads\<close> raises
  here is the one both \<open>try\<close> blocks catch, so the two functions always return: a
  value, and the world with what they printed.
\<close>

definition parse_json_list :: "env \<Rightarrow> string \<Rightarrow> world \<Rightarrow> json \<times> world" where
  "parse_json_list env text0 w =
     (let text = strip_markdown_fences text0 in
      case json_loads env text of
        Some (JArr xs) \<Rightarrow> (JArr xs, w)
      | _ \<Rightarrow>
        (case re_search_between (CHR ''['') (CHR '']'') text of
           Some m \<Rightarrow>
             (case json_loads env m of
                Some v \<Rightarrow> (v, w)
              | None \<Rightarrow> (JArr [], print (LogJsonFailedList (take 300 text)) w))
         | None \<Rightarrow> (JArr [], print (LogJsonFailedList (take 300 text)) w)))"

definition parse_json_dict :: "env \<Rightarrow> string \<Rightarrow> world \<Rightarrow> json \<times> world" where
  "parse_json_dict env text0 w =
     (let text = strip_markdown_fences text0 in
      case json_loads env text of
        Some (JObj kvs) \<Rightarrow> (JObj kvs, w)
      | _ \<Rightarrow>
        (case re_search_between (CHR ''{'') (CHR ''}'') text of
           Some m \<Rightarrow>
             (case json_loads env m of
                Some v \<Rightarrow> (v, w)
              | None \<Rightarrow> (JObj [], print (LogJsonFailedDict (take 300 text)) w))
         | None \<Rightarrow> (JObj [], print (LogJsonFailedDict (take 300 text)) w)))"

subsection \<open>The parser as the specification words it\<close>










section \<open>Phase 1: batch image analysis\<close>

text \<open>
  The rows phase 1 selects:
  \<^verbatim>\<open>WHERE user_id = ? AND analyzed_at IS NULL ORDER BY drawn_date ASC, filename ASC\<close>.
  \<open>NULL\<close> sorts first and text is compared code point by code point, which is the
  order of \<open>string option \<times> string\<close>.
\<close>

definition select_unanalyzed :: "world \<Rightarrow> int \<Rightarrow> drawing list" where
  "select_unanalyzed w user_id =
     sort_key (\<lambda>d. (d_drawn_date d, d_filename d))
       (filter (\<lambda>d. d_user_id d = user_id \<and> d_analyzed_at d = None) (drawings w))"

definition MAX_IMAGE_BYTES :: nat where
  "MAX_IMAGE_BYTES = 3700000"

text \<open>
  \<open>_prepare_image_bytes\<close>: a payload within the limit is returned as it is; a larger
  one goes through the image library, which returns the new bytes or raises.
\<close>

definition prepare_image_bytes ::
  "env \<Rightarrow> string \<Rightarrow> string \<Rightarrow> world \<Rightarrow> (string \<times> string) option \<times> world" where
  "prepare_image_bytes env raw_bytes media_type w =
     (if length raw_bytes \<le> MAX_IMAGE_BYTES then (Some (raw_bytes, media_type), w)
      else case resize_image env raw_bytes of
             None \<Rightarrow> (None, w)
           | Some result \<Rightarrow>
               (Some (result, ''image/jpeg''),
                print (LogResized (length raw_bytes div 1024) (length result div 1024)) w))"

text \<open>\<open>str.lower()\<close> on code points below 256.\<close>

definition py_lower_char :: "char \<Rightarrow> char" where
  "py_lower_char c =
     (let n = (of_char c :: nat)
      in if (65 \<le> n \<and> n \<le> 90) \<or> (192 \<le> n \<and> n \<le> 222 \<and> n \<noteq> 215)
         then char_of (n + 32) else c)"

definition py_lower :: "string \<Rightarrow> string" where
  "py_lower s = map py_lower_char s"

text \<open>
  The body of the \<open>try\<close> that loads one image: \<open>None\<close> when anything in it raised
  (the drawing is then left out of the call and the failure is printed).
\<close>

definition load_image ::
  "env \<Rightarrow> drawing \<Rightarrow> world \<Rightarrow> (string \<times> string \<times> string) option \<times> world" where
  "load_image env d w =
     (case read_file env (d_filepath d) of
        None \<Rightarrow> (None, print (LogCouldNotLoad (d_filepath d)) w)
      | Some image_bytes \<Rightarrow>
          (let ext = py_lower (case d_file_ext d of
                                 None \<Rightarrow> ''jpeg''
                               | Some e \<Rightarrow> if e = [] then ''jpeg'' else e);
               media_type = (if ext \<in> set [''jpg'', ''jpeg''] then ''image/jpeg''
                             else ''image/'' @ ext)
           in case prepare_image_bytes env image_bytes media_type w of
                (None, w1) \<Rightarrow> (None, print (LogCouldNotLoad (d_filepath d)) w1)
              | (Some (b, m), w1) \<Rightarrow> (Some (b, m, d_filename d), w1)))"

fun load_images ::
  "env \<Rightarrow> drawing list \<Rightarrow> world \<Rightarrow> (string \<times> string \<times> string) list \<times> world" where
  "load_images env [] w = ([], w)"
| "load_images env (d # ds) w =
     (case load_image env d w of
        (r, w1) \<Rightarrow>
          (case load_images env ds w1 of
             (image_tuples, w2) \<Rightarrow>
               ((case r of None \<Rightarrow> image_tuples | Some t \<Rightarrow> t # image_tuples), w2)))"

text \<open>
  Iterating over a JSON value as Python does: a list gives its elements, a dict its
  keys, a string its characters; anything else is not iterable.
\<close>

fun py_iter :: "json \<Rightarrow> exn + json list" where
  "py_iter (JArr xs) = Inr xs"
| "py_iter (JObj kvs) = Inr (map (\<lambda>kv. JStr (fst kv)) kvs)"
| "py_iter (JStr s) = Inr (map (\<lambda>c. JStr [c]) s)"
| "py_iter v = Inl TypeError"

text \<open>\<open>d.get(key, default)\<close> on the items of a dict.\<close>

definition dict_get :: "(string \<times> json) list \<Rightarrow> string \<Rightarrow> json \<Rightarrow> json" where
  "dict_get kvs key dflt = (case map_of kvs key of None \<Rightarrow> dflt | Some v \<Rightarrow> v)"

text \<open>
  The dict comprehension \<^verbatim>\<open>{item.get('filename', ''): item for item in analyses}\<close>, as
  the list of its (key, item) pairs in insertion order; a later pair overrides an
  earlier one with the same key. An item that is not a dict has no \<open>get\<close>, and a list
  or dict is not hashable.
\<close>

fun filename_pairs :: "json list \<Rightarrow> exn + (json \<times> (string \<times> json) list) list" where
  "filename_pairs [] = Inr []"
| "filename_pairs (JObj kvs # items) =
     (case dict_get kvs ''filename'' (JStr []) of
        JArr xs \<Rightarrow> Inl TypeError
      | JObj ys \<Rightarrow> Inl TypeError
      | key \<Rightarrow>
          (case filename_pairs items of
             Inl e \<Rightarrow> Inl e
           | Inr m \<Rightarrow> Inr ((key, kvs) # m)))"
| "filename_pairs (v # items) = Inl AttributeError"

definition lookup_filename ::
  "(json \<times> 'a) list \<Rightarrow> string \<Rightarrow> 'a option" where
  "lookup_filename m filename = map_of (rev m) (JStr filename)"

text \<open>
  Binding a JSON value to a \<open>TEXT\<close> column: \<open>None\<close> is \<open>NULL\<close>, a string is itself, a
  number is stored as its text, a list or a dict cannot be bound.
\<close>

fun bind_text :: "env \<Rightarrow> json \<Rightarrow> exn + string option" where
  "bind_text env JNull = Inr None"
| "bind_text env (JStr s) = Inr (Some s)"
| "bind_text env (JArr xs) = Inl BindingError"
| "bind_text env (JObj kvs) = Inl BindingError"
| "bind_text env v = Inr (Some (number_text env v))"

text \<open>\<^verbatim>\<open>UPDATE drawings SET ... WHERE id = ?\<close>\<close>

definition update_drawing :: "int \<Rightarrow> (drawing \<Rightarrow> drawing) \<Rightarrow> world \<Rightarrow> world" where
  "update_drawing i f w =
     w\<lparr>drawings := map (\<lambda>d. if d_id d = i then f d else d) (drawings w)\<rparr>"

text \<open>
  The loop that stores the result per drawing of the batch. A drawing with a matching,
  non-empty response object gets its text, the raw object and \<open>analyzed_at\<close>; any other
  drawing of the batch gets \<open>analyzed_at\<close> alone.
\<close>

fun store_batch ::
  "env \<Rightarrow> (json \<times> (string \<times> json) list) list \<Rightarrow> drawing list \<Rightarrow> world
     \<Rightarrow> exn option \<times> world" where
  "store_batch env m [] w = (None, w)"
| "store_batch env m (d # ds) w =
     (case lookup_filename m (d_filename d) of
        Some (kv # kvs) \<Rightarrow>
          (case bind_text env (dict_get (kv # kvs) ''description'' (JStr [])) of
             Inl e \<Rightarrow> (Some e, w)
           | Inr analysis_text \<Rightarrow>
               store_batch env m ds
                 (update_drawing (d_id d)
                    (\<lambda>r. r\<lparr>d_analysis_text := analysis_text,
                           d_analysis_json := Some (json_dumps env (JObj (kv # kvs))),
                           d_analyzed_at := Some (now env)\<rparr>) w))
      | _ \<Rightarrow>
          store_batch env m ds
            (update_drawing (d_id d) (\<lambda>r. r\<lparr>d_analyzed_at := Some (now env)\<rparr>) w))"

text \<open>\<^verbatim>\<open>UPDATE archive_analyses SET ... WHERE id = ?\<close>\<close>

definition update_analysis :: "int \<Rightarrow> (analysis \<Rightarrow> analysis) \<Rightarrow> world \<Rightarrow> world" where
  "update_analysis i f w =
     w\<lparr>archive_analyses := map (\<lambda>r. if r_id r = i then f r else r) (archive_analyses w)\<rparr>"

text \<open>
  The body of the loop over the batches, for the batch that starts at \<open>batch_start\<close>.
  It returns \<open>None\<close> when the body ends or reaches a \<open>continue\<close> (the loop then goes
  on with the next batch), and the exception when one escapes. The pause between
  batches has no effect on the world and is left out.
\<close>

definition phase1_batch ::
  "env \<Rightarrow> int \<Rightarrow> drawing list \<Rightarrow> nat \<Rightarrow> string \<Rightarrow> nat \<Rightarrow> world \<Rightarrow> exn option \<times> world" where
  "phase1_batch env analysis_id ds bsize prompt batch_start w =
     (let batch = take bsize (drop batch_start ds) in
      case load_images env batch w of
        (image_tuples, w1) \<Rightarrow>
          if image_tuples = [] then (None, w1)
          else
            (let max_tokens = int (length image_tuples)
                                * max_tokens_per_image (settings_of env) + 500
             in case analyze_batch env image_tuples prompt max_tokens of
                  Raises e \<Rightarrow> (None, print (LogClaudeCallFailed batch_start e) w1)
                | Responds raw_response \<Rightarrow>
                    (case parse_json_list env raw_response w1 of
                       (analyses, w2) \<Rightarrow>
                         (case py_iter analyses of
                            Inl e \<Rightarrow> (Some e, w2)
                          | Inr items \<Rightarrow>
                              (case filename_pairs items of
                                 Inl e \<Rightarrow> (Some e, w2)
                               | Inr filename_to_analysis \<Rightarrow>
                                   (case store_batch env filename_to_analysis batch w2 of
                                      (Some e, w3) \<Rightarrow> (Some e, w3)
                                    | (None, w3) \<Rightarrow>
                                        (let analyzed_so_far =
                                               min (batch_start + bsize) (length ds);
                                             w4 = commit
                                                    (update_analysis analysis_id
                                                       (\<lambda>r. r\<lparr>r_analyzed_count :=
                                                                int analyzed_so_far\<rparr>) w3)
                                         in (None,
                                             print (LogBatchAnalyzed
                                                      (int (batch_start div bsize) + 1)
                                                      (length image_tuples)) w4))))))))"

text \<open>The \<open>for\<close> loop over the batch starts: an exception ends it.\<close>

fun phase1_batches ::
  "env \<Rightarrow> int \<Rightarrow> drawing list \<Rightarrow> nat \<Rightarrow> string \<Rightarrow> nat list \<Rightarrow> world
     \<Rightarrow> exn option \<times> world" where
  "phase1_batches env analysis_id ds bsize prompt [] w = (None, w)"
| "phase1_batches env analysis_id ds bsize prompt (batch_start # starts) w =
     (case phase1_batch env analysis_id ds bsize prompt batch_start w of
        (Some e, w1) \<Rightarrow> (Some e, w1)
      | (None, w1) \<Rightarrow> phase1_batches env analysis_id ds bsize prompt starts w1)"

text \<open>\<open>range(0, n, step)\<close> for a positive step: the multiples of \<open>step\<close> below \<open>n\<close>.\<close>

definition py_range :: "nat \<Rightarrow> nat \<Rightarrow> nat list" where
  "py_range n step = filter (\<lambda>i. i mod step = 0) [0..<n]"

text \<open>
  \<open>_phase1_batch_analysis\<close>. \<open>range\<close> raises on a step of zero and is empty for a
  negative step.
\<close>

definition phase1_batch_analysis :: "env \<Rightarrow> int \<Rightarrow> int \<Rightarrow> world \<Rightarrow> exn option \<times> world" where
  "phase1_batch_analysis env user_id analysis_id w =
     (let ds = select_unanalyzed w user_id in
      if ds = [] then (None, w)
      else
        (let bsize = batch_size (settings_of env);
             prompt = render_batch_analysis env
         in if bsize = 0 then (Some ValueError, w)
            else if bsize < 0 then (None, w)
            else phase1_batches env analysis_id ds (nat bsize) prompt
                   (py_range (length ds) (nat bsize)) w))"

section \<open>Phase 2: lens discovery\<close>

text \<open>
  The rows phase 2 selects:
  \<^verbatim>\<open>WHERE user_id = ? AND analysis_text IS NOT NULL ORDER BY drawn_date ASC, filename ASC\<close>.
\<close>

definition select_analyzed :: "world \<Rightarrow> int \<Rightarrow> drawing list" where
  "select_analyzed w user_id =
     sort_key (\<lambda>d. (d_drawn_date d, d_filename d))
       (filter (\<lambda>d. d_user_id d = user_id \<and> d_analysis_text d \<noteq> None) (drawings w))"

text \<open>\<open>x or default\<close> on a nullable text: \<open>None\<close> and the empty string are falsy.\<close>

definition or_else :: "string option \<Rightarrow> string \<Rightarrow> string" where
  "or_else x dflt = (case x of None \<Rightarrow> dflt | Some s \<Rightarrow> if s = [] then dflt else s)"

definition summary_line :: "drawing \<Rightarrow> string" where
  "summary_line r =
     newline @ ''['' @ or_else (d_drawn_date r) ''unknown date'' @ ''] '' @ d_filename r
       @ '': '' @ (case d_analysis_text r of None \<Rightarrow> ''None'' | Some t \<Rightarrow> t) @ newline"

text \<open>The en dash of the year range, as its UTF-8 bytes; it only goes into the prompt.\<close>

definition en_dash :: string where
  "en_dash = [CHR 0xE2, CHR 0x80, CHR 0x93]"

definition year_range_of :: "drawing list \<Rightarrow> string" where
  "year_range_of rows =
     (let dates = [or_else (d_drawn_date r) []. r \<leftarrow> rows, or_else (d_drawn_date r) [] \<noteq> []]
      in if dates \<noteq> [] then take 4 (hd dates) @ en_dash @ take 4 (last dates)
         else ''unknown period'')"

text \<open>The truth value of a JSON value in a condition.\<close>

fun py_truthy :: "json \<Rightarrow> bool" where
  "py_truthy JNull = False"
| "py_truthy (JBool b) = b"
| "py_truthy (JInt i) = (i \<noteq> 0)"
| "py_truthy (JFloat x) = (x \<noteq> 0)"
| "py_truthy (JStr s) = (s \<noteq> [])"
| "py_truthy (JArr xs) = (xs \<noteq> [])"
| "py_truthy (JObj kvs) = (kvs \<noteq> [])"

text \<open>\<open>str(n)\<close> for a natural number, used by the default name \<open>Lens n\<close>.\<close>

fun string_of_nat :: "nat \<Rightarrow> string" where
  "string_of_nat n =
     (if n < 10 then [char_of (48 + n)]
      else string_of_nat (n div 10) @ [char_of (48 + n mod 10)])"

declare string_of_nat.simps [simp del]

text \<open>
  The key an \<open>AUTOINCREMENT\<close> column gives a new row: one more than the largest key
  the table has ever held.
\<close>

definition next_id :: "int \<Rightarrow> int list \<Rightarrow> int" where
  "next_id seq ids = fold max ids seq + 1"

text \<open>
  \<^verbatim>\<open>INSERT OR IGNORE INTO lenses\<close>. A \<open>NULL\<close> in a \<open>NOT NULL\<close> column and a row that
  breaks \<open>UNIQUE(user_id, name)\<close> are skipped silently; a broken foreign key raises.
\<close>

definition insert_or_ignore_lens ::
  "int \<Rightarrow> int \<Rightarrow> string option \<Rightarrow> string option \<Rightarrow> int \<Rightarrow> string \<Rightarrow> world
     \<Rightarrow> exn option \<times> world" where
  "insert_or_ignore_lens user_id analysis_id name description sort_order raw w =
     (case (name, description) of
        (Some n, Some dsc) \<Rightarrow>
          if \<exists>l \<in> set (lenses w). l_user_id l = user_id \<and> l_name l = n then (None, w)
          else if user_id \<notin> set (users w)
                  \<or> analysis_id \<notin> set (map r_id (archive_analyses w))
          then (Some IntegrityError, w)
          else
            (let i = next_id (seq_lenses w) (map l_id (lenses w))
             in (None,
                 w\<lparr>lenses := lenses w @
                      [\<lparr>l_id = i, l_user_id = user_id,
                        l_archive_analysis_id = Some analysis_id, l_name = n,
                        l_description = dsc, l_sort_order = sort_order,
                        l_raw_claude_output = Some raw\<rparr>],
                   seq_lenses := i\<rparr>))
      | _ \<Rightarrow> (None, w))"

text \<open>\<^verbatim>\<open>SELECT id FROM lenses WHERE user_id = ? AND name = ?\<close>, first row.\<close>

definition select_lens_id :: "world \<Rightarrow> int \<Rightarrow> string option \<Rightarrow> int option" where
  "select_lens_id w user_id name =
     (case name of
        None \<Rightarrow> None
      | Some n \<Rightarrow>
          map_option l_id (find (\<lambda>l. l_user_id l = user_id \<and> l_name l = n) (lenses w)))"

text \<open>
  \<^verbatim>\<open>INSERT OR IGNORE INTO lens_drawing_links\<close>: a row that breaks
  \<open>UNIQUE(lens_id, drawing_id)\<close> is skipped silently. The lens id and the drawing id
  come from rows just read, so the foreign keys hold.
\<close>

definition insert_or_ignore_link :: "int \<Rightarrow> int \<Rightarrow> real \<Rightarrow> world \<Rightarrow> world" where
  "insert_or_ignore_link lens_id drawing_id score w =
     (if \<exists>k \<in> set (lens_drawing_links w). k_lens_id k = lens_id \<and> k_drawing_id k = drawing_id
      then w
      else
        (let i = next_id (seq_links w) (map k_id (lens_drawing_links w))
         in w\<lparr>lens_drawing_links := lens_drawing_links w @
                 [\<lparr>k_id = i, k_lens_id = lens_id, k_drawing_id = drawing_id,
                   k_relevance_score = score, k_annotation = None,
                   k_annotation_generated_at = None\<rparr>],
              seq_links := i\<rparr>))"

text \<open>The loop over \<open>drawing_relevance.items()\<close>.\<close>

fun store_links ::
  "env \<Rightarrow> (string \<Rightarrow> int option) \<Rightarrow> int \<Rightarrow> (string \<times> json) list \<Rightarrow> world
     \<Rightarrow> exn option \<times> world" where
  "store_links env filename_to_id lens_id [] w = (None, w)"
| "store_links env filename_to_id lens_id ((filename, score) # rest) w =
     (case filename_to_id filename of
        None \<Rightarrow> store_links env filename_to_id lens_id rest w
      | Some drawing_id \<Rightarrow>
          (case py_float env score of
             Inl e \<Rightarrow> (Some e, w)
           | Inr x \<Rightarrow>
               store_links env filename_to_id lens_id rest
                 (insert_or_ignore_link lens_id drawing_id x w)))"

text \<open>The default name of a descriptor without one: \<^verbatim>\<open>f'Lens {sort_order + 1}'\<close>.\<close>

definition default_lens_name :: "nat \<Rightarrow> string" where
  "default_lens_name sort_order = ''Lens '' @ string_of_nat (sort_order + 1)"

text \<open>The body of the loop over the lens descriptors.\<close>

definition store_lens ::
  "env \<Rightarrow> int \<Rightarrow> int \<Rightarrow> (string \<Rightarrow> int option) \<Rightarrow> nat \<Rightarrow> json \<Rightarrow> world
     \<Rightarrow> exn option \<times> world" where
  "store_lens env user_id analysis_id filename_to_id sort_order lens_data w =
     (case lens_data of
        JObj kvs \<Rightarrow>
          (let name = dict_get kvs ''name'' (JStr (default_lens_name sort_order));
               description = dict_get kvs ''description'' (JStr []);
               drawing_relevance = dict_get kvs ''drawing_relevance'' (JObj [])
           in case bind_text env name of
                Inl e \<Rightarrow> (Some e, w)
              | Inr name_text \<Rightarrow>
                  (case bind_text env description of
                     Inl e \<Rightarrow> (Some e, w)
                   | Inr description_text \<Rightarrow>
                       (case insert_or_ignore_lens user_id analysis_id name_text
                               description_text (int sort_order) (json_dumps env lens_data) w of
                          (Some e, w1) \<Rightarrow> (Some e, w1)
                        | (None, w1) \<Rightarrow>
                            (case select_lens_id w1 user_id name_text of
                               None \<Rightarrow> (Some TypeError, w1)
                             | Some lens_id \<Rightarrow>
                                 (case drawing_relevance of
                                    JObj scores \<Rightarrow>
                                      (case store_links env filename_to_id lens_id scores w1 of
                                         (Some e, w2) \<Rightarrow> (Some e, w2)
                                       | (None, w2) \<Rightarrow>
                                           (None,
                                            print (LogLensStored name_text (length scores))
                                              (commit w2)))
                                  | _ \<Rightarrow> (Some AttributeError, w1))))))
      | _ \<Rightarrow> (Some AttributeError, w))"

fun store_lenses ::
  "env \<Rightarrow> int \<Rightarrow> int \<Rightarrow> (string \<Rightarrow> int option) \<Rightarrow> nat \<Rightarrow> json list \<Rightarrow> world
     \<Rightarrow> exn option \<times> world" where
  "store_lenses env user_id analysis_id filename_to_id sort_order [] w = (None, w)"
| "store_lenses env user_id analysis_id filename_to_id sort_order (lens_data # rest) w =
     (case store_lens env user_id analysis_id filename_to_id sort_order lens_data w of
        (Some e, w1) \<Rightarrow> (Some e, w1)
      | (None, w1) \<Rightarrow>
          store_lenses env user_id analysis_id filename_to_id (Suc sort_order) rest w1)"

text \<open>
  \<open>_phase2_lens_discovery\<close>. A failure of the inference call is caught and raised
  again as a \<open>RuntimeError\<close>.
\<close>

definition phase2_lens_discovery :: "env \<Rightarrow> int \<Rightarrow> int \<Rightarrow> world \<Rightarrow> exn option \<times> world" where
  "phase2_lens_discovery env user_id analysis_id w =
     (let rows = select_analyzed w user_id in
      if rows = [] then (None, print LogNoAnalyzedDrawings w)
      else
        (let summaries_block = concat (map summary_line rows);
             prompt = render_lens_discovery env (year_range_of rows) (length rows)
                        summaries_block
         in case synthesize_text env prompt (max_tokens_lens_discovery (settings_of env)) of
              Raises e \<Rightarrow>
                (Some (RuntimeError (''Lens discovery API call failed: '' @ e)), w)
            | Responds raw_response \<Rightarrow>
                (case parse_json_dict env raw_response w of
                   (JObj kvs, w1) \<Rightarrow>
                     (let lenses_data = dict_get kvs ''lenses'' (JArr []) in
                      if \<not> py_truthy lenses_data
                      then (None, print (LogNoLensesReturned (take 500 raw_response)) w1)
                      else
                        (case py_iter lenses_data of
                           Inl e \<Rightarrow> (Some e, w1)
                         | Inr descriptors \<Rightarrow>
                             store_lenses env user_id analysis_id
                               (map_of (rev (map (\<lambda>r. (d_filename r, d_id r)) rows)))
                               0 descriptors w1))
                 | (v, w1) \<Rightarrow> (Some AttributeError, w1))))"

section \<open>Phase 3: lens annotation\<close>

text \<open>\<open>str(e)\<close>: a \<open>RuntimeError\<close> prints its message.\<close>

definition str_of_exn :: "env \<Rightarrow> exn \<Rightarrow> string" where
  "str_of_exn env e = (case e of RuntimeError msg \<Rightarrow> msg | _ \<Rightarrow> exn_message env e)"










section \<open>The pipeline and its trigger\<close>

text \<open>
  The start of \<open>run_full_pipeline\<close>, up to its first commit: the count of the owner's
  drawings, and the run set to \<open>running\<close>.
\<close>

definition pipeline_start :: "int \<Rightarrow> int \<Rightarrow> world \<Rightarrow> world" where
  "pipeline_start user_id analysis_id w =
     (let n_total = length (filter (\<lambda>d. d_user_id d = user_id) (drawings w))
      in commit
           (update_analysis analysis_id
              (\<lambda>r. r\<lparr>r_status := ''running'', r_phase := Some ''batch_analysis'',
                     r_total_drawings := int n_total\<rparr>) w))"

text \<open>
  The \<open>except\<close> block of \<open>run_full_pipeline\<close>. Its commit also commits whatever the
  failed phase had written and not yet committed.
\<close>

definition pipeline_failed :: "env \<Rightarrow> int \<Rightarrow> exn \<Rightarrow> world \<Rightarrow> world" where
  "pipeline_failed env analysis_id e w =
     commit
       (update_analysis analysis_id
          (\<lambda>r. r\<lparr>r_status := ''failed'',
                 r_error_message := Some (take 500 (str_of_exn env e))\<rparr>)
          (print (LogPipelineFailed (str_of_exn env e)) w))"

text \<open>The rest of \<open>run_full_pipeline\<close>, from phase 1 on.\<close>

definition pipeline_phases :: "env \<Rightarrow> int \<Rightarrow> int \<Rightarrow> world \<Rightarrow> world" where
  "pipeline_phases env user_id analysis_id w =
     (case phase1_batch_analysis env user_id analysis_id w of
        (Some e, w1) \<Rightarrow> pipeline_failed env analysis_id e w1
      | (None, w1) \<Rightarrow>
          (let w2 = commit (update_analysis analysis_id
                              (\<lambda>r. r\<lparr>r_phase := Some ''lens_discovery''\<rparr>) w1)
           in case phase2_lens_discovery env user_id analysis_id w2 of
                (Some e, w3) \<Rightarrow> pipeline_failed env analysis_id e w3
              | (None, w3) \<Rightarrow>
                  commit (update_analysis analysis_id
                            (\<lambda>r. r\<lparr>r_status := ''complete'', r_phase := Some ''done'',
                                   r_completed_at := Some (now env)\<rparr>) w3)))"

definition run_full_pipeline :: "env \<Rightarrow> int \<Rightarrow> int \<Rightarrow> world \<Rightarrow> world" where
  "run_full_pipeline env user_id analysis_id w =
     pipeline_phases env user_id analysis_id (pipeline_start user_id analysis_id w)"

text \<open>
  \<open>trigger_analysis\<close> (backend/app/routers/archive.py). \<open>Started\<close> is the response with
  the id of the new run, whose pipeline is then scheduled as a background task;
  \<open>Conflict\<close> is the HTTP 409 with the id of the running analysis; an exception of the
  insert leaves the handler after a rollback.
\<close>

datatype trigger_response = Started int | Conflict int | Failed exn

definition trigger_analysis :: "env \<Rightarrow> int \<Rightarrow> world \<Rightarrow> trigger_response \<times> world" where
  "trigger_analysis env user_id w =
     (case find (\<lambda>r. r_user_id r = user_id \<and> r_status r = ''running'') (archive_analyses w) of
        Some running \<Rightarrow> (Conflict (r_id running), w)
      | None \<Rightarrow>
          if user_id \<notin> set (users w) then (Failed IntegrityError, w)
          else
            (let analysis_id = next_id (seq_analyses w) (map r_id (archive_analyses w))
             in (Started analysis_id,
                 commit
                   (w\<lparr>archive_analyses := archive_analyses w @
                         [\<lparr>r_id = analysis_id, r_user_id = user_id, r_status = ''pending'',
                           r_phase = None, r_total_drawings = 0, r_analyzed_count = 0,
                           r_error_message = None,
                           r_model_used = Some (model_name (settings_of env)),
                           r_completed_at = None\<rparr>],
                      seq_analyses := analysis_id\<rparr>))))"

section \<open>Notions used in the proofs\<close>

text \<open>
  \<open>only_logs w w'\<close>: the world \<open>w'\<close> is \<open>w\<close> with more printed. \<open>dframe S w w'\<close>: the
  table \<open>drawings\<close> of \<open>w'\<close> is that of \<open>w\<close> row by row, where a row keeps its id, a row
  whose id is outside \<open>S\<close> is unchanged, and \<open>analyzed_at\<close>, once set, stays set.
\<close>

definition only_logs :: "world \<Rightarrow> world \<Rightarrow> bool" where
  "only_logs w w' \<longleftrightarrow> (\<exists>es. w' = w\<lparr>log := log w @ es\<rparr>)"

definition dframe :: "int set \<Rightarrow> world \<Rightarrow> world \<Rightarrow> bool" where
  "dframe S w w' \<longleftrightarrow>
     (\<exists>g. drawings w' = map g (drawings w)
          \<and> (\<forall>d. d_id (g d) = d_id d \<and> (d_id d \<notin> S \<longrightarrow> g d = d)
                 \<and> (d_analyzed_at d \<noteq> None \<longrightarrow> d_analyzed_at (g d) \<noteq> None)))"

text \<open>
  \<open>counts_of aid snaps\<close>: the values of \<open>analyzed_count\<close> of the run \<open>aid\<close> in the
  committed snapshots \<open>snaps\<close> of \<open>archive_analyses\<close>, oldest first.
\<close>

definition counts_of :: "int \<Rightarrow> analysis list list \<Rightarrow> int list" where
  "counts_of aid snaps =
     map r_analyzed_count (concat (map (filter (\<lambda>r. r_id r = aid)) snaps))"

text \<open>
  The invariant of a run while its pipeline executes, for the snapshots committed
  since the \<open>n0\<close>-th: the run's row holds the count \<open>c\<close> and the total \<open>t\<close>; the
  committed counts are sorted and at most \<open>c\<close>; every committed row of the run has its
  count at most its total.
\<close>

definition run_inv :: "int \<Rightarrow> nat \<Rightarrow> int \<Rightarrow> int \<Rightarrow> world \<Rightarrow> bool" where
  "run_inv aid n0 t c w \<longleftrightarrow>
     n0 \<le> length (committed w)
     \<and> (\<forall>r\<in>set (archive_analyses w).
           r_id r = aid \<longrightarrow> r_analyzed_count r = c \<and> r_total_drawings r = t)
     \<and> sorted (counts_of aid (drop n0 (committed w)))
     \<and> (\<forall>v\<in>set (counts_of aid (drop n0 (committed w))). v \<le> c)
     \<and> (\<forall>snap\<in>set (drop n0 (committed w)). \<forall>r\<in>set snap.
           r_id r = aid \<longrightarrow> r_analyzed_count r \<le> r_total_drawings r)"

text \<open>
  The world in which phase 2 starts when phase 1 has returned: the world phase 1 left,
  with the phase of the run set to \<open>lens_discovery\<close> and committed.
\<close>

definition world_at_phase2 :: "env \<Rightarrow> int \<Rightarrow> int \<Rightarrow> world \<Rightarrow> world" where
  "world_at_phase2 env user_id analysis_id w =
     commit (update_analysis analysis_id (\<lambda>r. r\<lparr>r_phase := Some ''lens_discovery''\<rparr>)
       (snd (phase1_batch_analysis env user_id analysis_id
          (pipeline_start user_id analysis_id w))))"

section \<open>Concrete inputs\<close>

text \<open>
  An environment and a store to evaluate the definitions on: the reference settings,
  a file system where every file reads, an inference service that is down, and a
  \<open>json.loads\<close> that knows no text. Variations are record updates of these.
\<close>

definition env0 :: env where
  "env0 =
     \<lparr>settings_of =
        \<lparr>model_name = ''model'', batch_size = 8, max_tokens_per_image = 600,
         max_tokens_lens_discovery = 8000, max_tokens_annotation_batch = 2000,
         relevance_threshold = 4 / 10\<rparr>,
      now = ''2024-01-01 00:00:00'',
      read_file = (\<lambda>path. Some ''bytes''),
      resize_image = (\<lambda>b. None),
      analyze_batch = (\<lambda>images prompt max_tokens. Raises ''timeout''),
      synthesize_text = (\<lambda>prompt max_tokens. Raises ''timeout''),
      json_loads = (\<lambda>t. None),
      json_dumps = (\<lambda>v. ''json''),
      py_float = (\<lambda>v. case v of JFloat x \<Rightarrow> Inr x | JInt i \<Rightarrow> Inr (real_of_int i)
                        | _ \<Rightarrow> Inl TypeError),
      number_text = (\<lambda>v. ''0''),
      render_batch_analysis = ''describe'',
      render_lens_discovery = (\<lambda>year_range total_count all_summaries. ''discover''),
      render_lens_annotation = (\<lambda>lens_name lens_description drawing_entries. ''annotate''),
      exn_message = (\<lambda>e. ''error'')\<rparr>"

definition world0 :: world where
  "world0 =
     \<lparr>users = [1], drawings = [], archive_analyses = [], lenses = [],
      lens_drawing_links = [], seq_analyses = 0, seq_lenses = 0, seq_links = 0,
      log = [], committed = []\<rparr>"

definition drawing0 :: drawing where
  "drawing0 =
     \<lparr>d_id = 1, d_user_id = 1, d_filename = ''a.jpg'', d_filepath = ''/a.jpg'',
      d_drawn_date = Some ''2016-05-06'', d_file_ext = Some ''jpg'',
      d_analysis_text = None, d_analysis_json = None, d_analyzed_at = None\<rparr>"


text \<open>
  An inference service that answers every batch with one text, which \<open>json.loads\<close>
  reads as a single object for \<open>b.jpg\<close>; and a store with three drawings of owner 1,
  the first analyzed by an earlier run.
\<close>

definition env_ok :: env where
  "env_ok = env0\<lparr>analyze_batch := (\<lambda>images prompt max_tokens. Responds ''response''),
      json_loads := (\<lambda>t. if t = ''response''
         then Some (JArr [JObj [(''filename'', JStr ''b.jpg''), (''description'', JStr ''a tree'')]])
         else None)\<rparr>"

definition drawing_a :: drawing where
  "drawing_a = drawing0\<lparr>d_analysis_text := Some ''a house'',
                       d_analyzed_at := Some ''2023-12-31 00:00:00''\<rparr>"

definition drawing_b :: drawing where
  "drawing_b = drawing0\<lparr>d_id := 2, d_filename := ''b.jpg'', d_filepath := ''/b.jpg''\<rparr>"

definition drawing_c :: drawing where
  "drawing_c = drawing0\<lparr>d_id := 3, d_filename := ''c.jpg'', d_filepath := ''/c.jpg'',
                       d_drawn_date := None\<rparr>"

definition world1 :: world where
  "world1 = world0\<lparr>drawings := [drawing_a, drawing_b, drawing_c]\<rparr>"

text \<open>
  The same service when the file of \<open>c.jpg\<close> cannot be read; a service whose answer
  \<open>json.loads\<close> reads as a list of strings; a run as the trigger creates it, and a
  store with that run and one drawing.
\<close>

definition env_unreadable :: env where
  "env_unreadable =
     env_ok\<lparr>read_file := (\<lambda>path. if path = ''/c.jpg'' then None else Some ''bytes'')\<rparr>"

definition env_strings :: env where
  "env_strings =
     env0\<lparr>analyze_batch := (\<lambda>images prompt max_tokens. Responds ''response''),
          json_loads := (\<lambda>t. if t = ''response'' then Some (JArr [JStr ''a tree''])
                              else None)\<rparr>"

definition run0 :: analysis where
  "run0 =
     \<lparr>r_id = 1, r_user_id = 1, r_status = ''pending'', r_phase = None,
      r_total_drawings = 0, r_analyzed_count = 0, r_error_message = None,
      r_model_used = Some ''model'', r_completed_at = None\<rparr>"

definition world_one :: world where
  "world_one = world0\<lparr>drawings := [drawing0], archive_analyses := [run0]\<rparr>"



text \<open>The store \<open>world1\<close> after a trigger for owner 1 has created run 1.\<close>

definition world_triggered :: world where
  "world_triggered = world1\<lparr>archive_analyses := [run0], seq_analyses := 1, committed := [[run0]]\<rparr>"

(*THEOREMS*)

section \<open>Properties of the annotation status\<close>

lemma count_ready_le_total: "count_ready st w lens_id \<le> count_total st w lens_id"
proof -
  have "length (concat (map f xs)) \<le> length (concat (map g xs))"
    if "\<And>x. length (f x) \<le> length (g x)" for f g :: "link \<Rightarrow> (link \<times> drawing) list" and xs
    using that by (induction xs) (simp_all add: add_mono)
  then show ?thesis
    unfolding count_ready_def count_total_def
    by (simp add: length_concat sum_list_mono)
qed

text \<open>
  Claim C8. For all counts with \<open>ready \<le> total\<close>, the status named by
  \<open>get_annotation_status\<close> is \<open>empty\<close> exactly when \<open>total = 0\<close>, \<open>pending\<close> exactly
  when \<open>total > 0\<close> and \<open>ready = 0\<close>, \<open>generating\<close> exactly when \<open>0 < ready < total\<close>,
  and \<open>complete\<close> exactly when \<open>ready = total > 0\<close>. The counts the operation
  itself computes always satisfy \<open>ready \<le> total\<close>, and its status is the one named
  from them.
\<close>

theorem annotation_status_by_counts:
  assumes "n_ready \<le> n_total"
  shows "(status_of_counts n_total n_ready = ''empty'' \<longleftrightarrow> n_total = 0)
       \<and> (status_of_counts n_total n_ready = ''pending'' \<longleftrightarrow> 0 < n_total \<and> n_ready = 0)
       \<and> (status_of_counts n_total n_ready = ''generating'' \<longleftrightarrow> 0 < n_ready \<and> n_ready < n_total)
       \<and> (status_of_counts n_total n_ready = ''complete'' \<longleftrightarrow> n_ready = n_total \<and> 0 < n_total)
       \<and> asr_ready (get_annotation_status st w lens_id user_id)
           \<le> asr_total (get_annotation_status st w lens_id user_id)
       \<and> asr_status (get_annotation_status st w lens_id user_id)
           = status_of_counts (asr_total (get_annotation_status st w lens_id user_id))
               (asr_ready (get_annotation_status st w lens_id user_id))"
  using assms count_ready_le_total [of st w lens_id]
  by (auto simp: status_of_counts_def get_annotation_status_def Let_def)

theorem annotation_status_by_counts_witness:
  "(3::nat) \<le> 5
   \<and> status_of_counts 0 0 = ''empty'' \<and> status_of_counts 5 0 = ''pending''
   \<and> status_of_counts 5 3 = ''generating'' \<and> status_of_counts 5 5 = ''complete''"
  using annotation_status_by_counts [of 3 5] annotation_status_by_counts [of 0 0]
    annotation_status_by_counts [of 0 5] annotation_status_by_counts [of 5 5]
  by simp

text \<open>
  Claim C10. The result of \<open>get_annotation_status\<close> does not depend on the owner
  argument: for every lens id and any two user ids the response is the same. It does
  not depend on the table \<open>lenses\<close> either, so not on who owns the lens: the two queries
  filter on the lens id and the relevance threshold only.
\<close>

theorem annotation_status_ignores_owner:
  "get_annotation_status st w lens_id user_id1 = get_annotation_status st w lens_id user_id2
   \<and> get_annotation_status st (w\<lparr>lenses := ls\<rparr>) lens_id user_id1
       = get_annotation_status st w lens_id user_id2"
  by (simp add: get_annotation_status_def count_total_def count_ready_def)

section \<open>The parser does what the specification says\<close>


























section \<open>One running analysis per owner\<close>

text \<open>
  A trigger is rejected whenever a run of the owner has the status \<open>running\<close>, and
  then nothing is written.
\<close>

lemma trigger_conflict_when_running:
  assumes "r \<in> set (archive_analyses w)" "r_user_id r = user_id" "r_status r = ''running''"
  shows "\<exists>i. trigger_analysis env user_id w = (Conflict i, w)"
proof -
  from assms
  have "\<exists>x. find (\<lambda>r. r_user_id r = user_id \<and> r_status r = ''running'')
               (archive_analyses w) = Some x"
    by (cases "find (\<lambda>r. r_user_id r = user_id \<and> r_status r = ''running'')
                 (archive_analyses w)")
       (auto simp: find_None_iff)
  then show ?thesis by (auto simp: trigger_analysis_def)
qed

text \<open>
  Claim C1 says that at most one run per owner is \<open>running\<close> at a time, and that two
  triggers in a row for one owner give one success and one conflict. The check of
  \<open>trigger_analysis\<close> looks for the status \<open>running\<close> only, while a new run is created
  as \<open>pending\<close> and becomes \<open>running\<close> when its background pipeline starts. Evaluated
  on a store without runs: two triggers in a row for owner 1 both succeed, creating
  runs 1 and 2, and once both pipelines have started both runs of owner 1 are \<open>running\<close>.
\<close>

theorem trigger_twice_both_running:
  "fst (trigger_analysis env0 1 world0) = Started 1
   \<and> fst (trigger_analysis env0 1 (snd (trigger_analysis env0 1 world0))) = Started 2
   \<and> map (\<lambda>r. (r_id r, r_user_id r, r_status r))
        (archive_analyses
          (pipeline_start 1 2 (pipeline_start 1 1
            (snd (trigger_analysis env0 1 (snd (trigger_analysis env0 1 world0)))))))
       = [(1, 1, ''running''), (2, 1, ''running'')]"
  by (simp add: trigger_analysis_def env0_def world0_def next_id_def commit_def
      pipeline_start_def update_analysis_def Let_def)

section \<open>Frame lemmas: what each step can change\<close>

lemma print_fields [simp]:
  "users (print e w) = users w" "drawings (print e w) = drawings w"
  "archive_analyses (print e w) = archive_analyses w" "lenses (print e w) = lenses w"
  "lens_drawing_links (print e w) = lens_drawing_links w"
  "seq_analyses (print e w) = seq_analyses w" "seq_lenses (print e w) = seq_lenses w"
  "seq_links (print e w) = seq_links w" "committed (print e w) = committed w"
  by (simp_all add: print_def)

lemma commit_fields [simp]:
  "users (commit w) = users w" "drawings (commit w) = drawings w"
  "archive_analyses (commit w) = archive_analyses w" "lenses (commit w) = lenses w"
  "lens_drawing_links (commit w) = lens_drawing_links w"
  "seq_analyses (commit w) = seq_analyses w" "seq_lenses (commit w) = seq_lenses w"
  "seq_links (commit w) = seq_links w" "log (commit w) = log w"
  "committed (commit w) = committed w @ [archive_analyses w]"
  by (simp_all add: commit_def)

lemma update_drawing_fields [simp]:
  "users (update_drawing i f w) = users w"
  "archive_analyses (update_drawing i f w) = archive_analyses w"
  "lenses (update_drawing i f w) = lenses w"
  "lens_drawing_links (update_drawing i f w) = lens_drawing_links w"
  "seq_analyses (update_drawing i f w) = seq_analyses w"
  "seq_lenses (update_drawing i f w) = seq_lenses w"
  "seq_links (update_drawing i f w) = seq_links w" "log (update_drawing i f w) = log w"
  "committed (update_drawing i f w) = committed w"
  "drawings (update_drawing i f w) = map (\<lambda>d. if d_id d = i then f d else d) (drawings w)"
  by (simp_all add: update_drawing_def)

lemma update_analysis_fields [simp]:
  "users (update_analysis i f w) = users w"
  "drawings (update_analysis i f w) = drawings w"
  "lenses (update_analysis i f w) = lenses w"
  "lens_drawing_links (update_analysis i f w) = lens_drawing_links w"
  "seq_analyses (update_analysis i f w) = seq_analyses w"
  "seq_lenses (update_analysis i f w) = seq_lenses w"
  "seq_links (update_analysis i f w) = seq_links w" "log (update_analysis i f w) = log w"
  "committed (update_analysis i f w) = committed w"
  "archive_analyses (update_analysis i f w)
     = map (\<lambda>r. if r_id r = i then f r else r) (archive_analyses w)"
  by (simp_all add: update_analysis_def)

lemma only_logs_refl [simp]: "only_logs w w"
  unfolding only_logs_def by (rule exI [of _ "[]"]) simp

lemma only_logs_print [simp]: "only_logs w (print e w)"
  unfolding only_logs_def print_def by (rule exI [of _ "[e]"]) simp

lemma only_logs_trans: "only_logs w w1 \<Longrightarrow> only_logs w1 w2 \<Longrightarrow> only_logs w w2"
proof -
  assume "only_logs w w1" "only_logs w1 w2"
  then obtain es es' where "w1 = w\<lparr>log := log w @ es\<rparr>" "w2 = w1\<lparr>log := log w1 @ es'\<rparr>"
    unfolding only_logs_def by blast
  then have "w2 = w\<lparr>log := log w @ (es @ es')\<rparr>" by simp
  then show ?thesis unfolding only_logs_def by blast
qed

lemma only_logs_fields:
  assumes "only_logs w w'"
  shows "users w' = users w" "drawings w' = drawings w"
    "archive_analyses w' = archive_analyses w" "lenses w' = lenses w"
    "lens_drawing_links w' = lens_drawing_links w"
    "seq_analyses w' = seq_analyses w" "seq_lenses w' = seq_lenses w"
    "seq_links w' = seq_links w" "committed w' = committed w"
  using assms unfolding only_logs_def by auto


lemma only_logs_prepare: "only_logs w (snd (prepare_image_bytes env b m w))"
  by (simp add: prepare_image_bytes_def split: option.splits)

lemma only_logs_load_image: "only_logs w (snd (load_image env d w))"
proof -
  have p: "only_logs w (print e (snd (prepare_image_bytes env b m w)))" for e b m
    by (rule only_logs_trans [OF only_logs_prepare only_logs_print])
  show ?thesis
    using only_logs_prepare p
    by (auto simp: load_image_def Let_def split: option.splits prod.splits)
      (metis snd_conv)+
qed

lemma only_logs_load_images: "only_logs w (snd (load_images env ds w))"
proof (induction ds arbitrary: w)
  case Nil
  then show ?case by simp
next
  case (Cons d ds)
  obtain r w1 where l: "load_image env d w = (r, w1)" by (cases "load_image env d w")
  obtain ts w2 where ls: "load_images env ds w1 = (ts, w2)" by (cases "load_images env ds w1")
  have "only_logs w w1" using only_logs_load_image [of w env d] l by simp
  moreover have "only_logs w1 w2" using Cons.IH [of w1] ls by simp
  ultimately have "only_logs w w2" by (rule only_logs_trans)
  then show ?case by (simp add: l ls)
qed

lemma only_logs_parse_list: "only_logs w (snd (parse_json_list env t w))"
  by (simp add: parse_json_list_def Let_def split: option.splits json.splits)

lemma only_logs_parse_dict: "only_logs w (snd (parse_json_dict env t w))"
  by (simp add: parse_json_dict_def Let_def split: option.splits json.splits)


lemma dframe_same: "drawings w' = drawings w \<Longrightarrow> dframe S w w'"
  unfolding dframe_def by (rule exI [of _ "\<lambda>d. d"]) simp

lemma dframe_trans:
  assumes "dframe S w w1" "dframe S w1 w2"
  shows "dframe S w w2"
proof -
  from assms obtain g h where
    g: "drawings w1 = map g (drawings w)"
       "\<And>d. d_id (g d) = d_id d" "\<And>d. d_id d \<notin> S \<Longrightarrow> g d = d"
       "\<And>d. d_analyzed_at d \<noteq> None \<Longrightarrow> d_analyzed_at (g d) \<noteq> None"
    and h: "drawings w2 = map h (drawings w1)"
       "\<And>d. d_id (h d) = d_id d" "\<And>d. d_id d \<notin> S \<Longrightarrow> h d = d"
       "\<And>d. d_analyzed_at d \<noteq> None \<Longrightarrow> d_analyzed_at (h d) \<noteq> None"
    unfolding dframe_def by blast
  have "drawings w2 = map (\<lambda>d. h (g d)) (drawings w)" by (simp add: g(1) h(1))
  moreover have "d_id (h (g d)) = d_id d" for d by (simp add: g(2) h(2))
  moreover have "d_id d \<notin> S \<Longrightarrow> h (g d) = d" for d by (simp add: g(3) h(3))
  moreover have "d_analyzed_at d \<noteq> None \<Longrightarrow> d_analyzed_at (h (g d)) \<noteq> None" for d
    using g(4) h(4) by blast
  ultimately show ?thesis unfolding dframe_def by blast
qed

lemma dframe_mono: "S \<subseteq> T \<Longrightarrow> dframe S w w' \<Longrightarrow> dframe T w w'"
  unfolding dframe_def by blast

lemma dframe_update:
  assumes "i \<in> S" "\<And>d. d_id (f d) = d_id d"
    "\<And>d. d_analyzed_at d \<noteq> None \<Longrightarrow> d_analyzed_at (f d) \<noteq> None"
  shows "dframe S w (update_drawing i f w)"
  unfolding dframe_def
  by (rule exI [of _ "\<lambda>d. if d_id d = i then f d else d"]) (use assms in auto)

lemma dframe_row:
  assumes "dframe S w w'" "r \<in> set (drawings w')"
  shows "\<exists>r0\<in>set (drawings w). d_id r0 = d_id r
           \<and> (d_analyzed_at r0 \<noteq> None \<longrightarrow> d_analyzed_at r \<noteq> None)
           \<and> (d_id r \<notin> S \<longrightarrow> r = r0)"
proof -
  from assms(1) obtain g where
    g: "drawings w' = map g (drawings w)"
       "\<And>d. d_id (g d) = d_id d" "\<And>d. d_id d \<notin> S \<Longrightarrow> g d = d"
       "\<And>d. d_analyzed_at d \<noteq> None \<Longrightarrow> d_analyzed_at (g d) \<noteq> None"
    unfolding dframe_def by blast
  from assms(2) g(1) obtain r0 where r0: "r0 \<in> set (drawings w)" "r = g r0" by auto
  show ?thesis
  proof (rule bexI [OF _ r0(1)], intro conjI impI)
    show "d_id r0 = d_id r" by (simp add: r0(2) g(2))
    show "d_analyzed_at r \<noteq> None" if "d_analyzed_at r0 \<noteq> None"
      using that g(4) r0(2) by simp
    show "r = r0" if "d_id r \<notin> S" using that g(2) g(3) r0(2) by simp
  qed
qed

lemma store_batch_fields:
  "users (snd (store_batch env m ds w)) = users w
   \<and> archive_analyses (snd (store_batch env m ds w)) = archive_analyses w
   \<and> lenses (snd (store_batch env m ds w)) = lenses w
   \<and> lens_drawing_links (snd (store_batch env m ds w)) = lens_drawing_links w
   \<and> log (snd (store_batch env m ds w)) = log w
   \<and> committed (snd (store_batch env m ds w)) = committed w"
  by (induction ds arbitrary: w) (auto split: option.splits list.splits sum.splits)

lemma store_batch_Cons_cases:
  obtains (raise) e where "store_batch env m (d # ds) w = (Some e, w)"
  | (upd) f where "\<And>r. d_id (f r) = d_id r" "\<And>r. d_analyzed_at (f r) \<noteq> None"
      "store_batch env m (d # ds) w = store_batch env m ds (update_drawing (d_id d) f w)"
proof (cases "lookup_filename m (d_filename d)")
  case None
  show ?thesis
    by (rule upd [of "\<lambda>r. r\<lparr>d_analyzed_at := Some (now env)\<rparr>"]) (simp_all add: None)
next
  case (Some kvs)
  show ?thesis
  proof (cases kvs)
    case Nil
    show ?thesis
      by (rule upd [of "\<lambda>r. r\<lparr>d_analyzed_at := Some (now env)\<rparr>"]) (simp_all add: Some Nil)
  next
    case (Cons kv kvs')
    show ?thesis
    proof (cases "bind_text env (dict_get (kv # kvs') ''description'' (JStr []))")
      case (Inl e)
      show ?thesis by (rule raise [of e]) (simp add: Some Cons Inl)
    next
      case (Inr t)
      show ?thesis
        by (rule upd [of "\<lambda>r. r\<lparr>d_analysis_text := t,
                           d_analysis_json := Some (json_dumps env (JObj (kv # kvs'))),
                           d_analyzed_at := Some (now env)\<rparr>"])
          (simp_all add: Some Cons Inr)
    qed
  qed
qed

lemma store_batch_dframe: "dframe (d_id ` set ds) w (snd (store_batch env m ds w))"
proof (induction ds arbitrary: w)
  case Nil
  then show ?case by (simp add: dframe_same)
next
  case (Cons d ds)
  show ?case
  proof (cases rule: store_batch_Cons_cases [of env m d ds w])
    case (raise e)
    then show ?thesis by (simp add: dframe_same)
  next
    case (upd f)
    have "dframe (d_id ` set (d # ds)) w (snd (store_batch env m ds (update_drawing (d_id d) f w)))"
    proof (rule dframe_trans)
      show "dframe (d_id ` set (d # ds)) w (update_drawing (d_id d) f w)"
        by (rule dframe_update) (use upd in auto)
      show "dframe (d_id ` set (d # ds)) (update_drawing (d_id d) f w)
              (snd (store_batch env m ds (update_drawing (d_id d) f w)))"
        by (rule dframe_mono [OF _ Cons.IH]) auto
    qed
    then show ?thesis by (simp only: upd(3))
  qed
qed

lemma store_batch_marks:
  assumes "fst (store_batch env m ds w) = None"
  shows "\<forall>d\<in>set ds. \<forall>r\<in>set (drawings (snd (store_batch env m ds w))).
           d_id r = d_id d \<longrightarrow> d_analyzed_at r \<noteq> None"
  using assms
proof (induction ds arbitrary: w)
  case Nil
  then show ?case by simp
next
  case (Cons d ds)
  show ?case
  proof (cases rule: store_batch_Cons_cases [of env m d ds w])
    case (raise e)
    with Cons.prems show ?thesis by simp
  next
    case (upd f)
    let ?w1 = "update_drawing (d_id d) f w"
    from Cons.prems have ok: "fst (store_batch env m ds ?w1) = None" by (simp only: upd(3))
    have "\<forall>x\<in>set (d # ds). \<forall>r\<in>set (drawings (snd (store_batch env m ds ?w1))).
             d_id r = d_id x \<longrightarrow> d_analyzed_at r \<noteq> None"
    proof (intro ballI impI)
      fix x r
      assume x: "x \<in> set (d # ds)" and r: "r \<in> set (drawings (snd (store_batch env m ds ?w1)))"
        and eq: "d_id r = d_id x"
      show "d_analyzed_at r \<noteq> None"
      proof (cases "x \<in> set ds")
        case True
        with Cons.IH [OF ok] r eq show ?thesis by blast
      next
        case False
        with x have xd: "x = d" by simp
        from dframe_row [OF store_batch_dframe r]
        obtain r0 where r0: "r0 \<in> set (drawings ?w1)" "d_id r0 = d_id r"
          "d_analyzed_at r0 \<noteq> None \<longrightarrow> d_analyzed_at r \<noteq> None" by blast
        from r0(1) have "r0 \<in> (\<lambda>q. if d_id q = d_id d then f q else q) ` set (drawings w)"
          by simp
        then obtain q where q: "r0 = (if d_id q = d_id d then f q else q)" by blast
        have "d_id r0 = d_id d" using r0(2) eq xd by simp
        with q upd(1) have "r0 = f q" by (cases "d_id q = d_id d") simp_all
        then have "d_analyzed_at r0 \<noteq> None" using upd(2) by simp
        with r0(3) show ?thesis by blast
      qed
    qed
    then show ?thesis by (simp only: upd(3))
  qed
qed


lemma only_logs_dframe: "only_logs w w' \<Longrightarrow> dframe S w w'"
  by (rule dframe_same) (simp add: only_logs_fields)

lemma phase1_batch_cases:
  obtains (skip) w1 where
      "phase1_batch env aid ds bsize p start w = (None, w1)" "only_logs w w1"
      "fst (load_images env (take bsize (drop start ds)) w) = []
       \<or> (\<exists>e. analyze_batch env (fst (load_images env (take bsize (drop start ds)) w)) p
                 (int (length (fst (load_images env (take bsize (drop start ds)) w)))
                    * max_tokens_per_image (settings_of env) + 500) = Raises e)"
  | (raise) e w3 where
      "phase1_batch env aid ds bsize p start w = (Some e, w3)"
      "dframe (d_id ` set (take bsize (drop start ds))) w w3"
      "archive_analyses w3 = archive_analyses w" "committed w3 = committed w"
  | (stored) w4 where
      "phase1_batch env aid ds bsize p start w = (None, w4)"
      "dframe (d_id ` set (take bsize (drop start ds))) w w4"
      "\<forall>d\<in>set (take bsize (drop start ds)). \<forall>r\<in>set (drawings w4).
          d_id r = d_id d \<longrightarrow> d_analyzed_at r \<noteq> None"
      "archive_analyses w4
         = map (\<lambda>r. if r_id r = aid
                     then r\<lparr>r_analyzed_count := int (min (start + bsize) (length ds))\<rparr> else r)
             (archive_analyses w)"
      "committed w4 = committed w @ [archive_analyses w4]"
proof -
  let ?batch = "take bsize (drop start ds)"
  let ?S = "d_id ` set ?batch"
  obtain ts w1 where l: "load_images env ?batch w = (ts, w1)"
    by (cases "load_images env ?batch w")
  have ol1: "only_logs w w1" using only_logs_load_images [of w env ?batch] l by simp
  show ?thesis
  proof (cases "ts = []")
    case True
    show ?thesis by (rule skip [of w1]) (simp_all add: phase1_batch_def l True ol1)
  next
    case False
    let ?mt = "int (length ts) * max_tokens_per_image (settings_of env) + 500"
    show ?thesis
    proof (cases "analyze_batch env ts p ?mt")
      case (Raises e)
      show ?thesis
      proof (rule skip [of "print (LogClaudeCallFailed start e) w1"])
        show "phase1_batch env aid ds bsize p start w
                = (None, print (LogClaudeCallFailed start e) w1)"
          by (simp add: phase1_batch_def l False Raises)
        show "only_logs w (print (LogClaudeCallFailed start e) w1)"
          by (rule only_logs_trans [OF ol1 only_logs_print])
        show "fst (load_images env ?batch w) = []
           \<or> (\<exists>e. analyze_batch env (fst (load_images env ?batch w)) p
                 (int (length (fst (load_images env ?batch w)))
                    * max_tokens_per_image (settings_of env) + 500) = Raises e)"
          by (simp add: l Raises)
      qed
    next
      case (Responds raw)
      obtain analyses w2 where pj: "parse_json_list env raw w1 = (analyses, w2)"
        by (cases "parse_json_list env raw w1")
      have "only_logs w1 w2" using only_logs_parse_list [of w1 env raw] pj by simp
      with ol1 have ol2: "only_logs w w2" by (rule only_logs_trans)
      have pre: "phase1_batch env aid ds bsize p start w
          = (case py_iter analyses of
               Inl e \<Rightarrow> (Some e, w2)
             | Inr items \<Rightarrow>
                 (case filename_pairs items of
                    Inl e \<Rightarrow> (Some e, w2)
                  | Inr m \<Rightarrow>
                      (case store_batch env m ?batch w2 of
                         (Some e, w3) \<Rightarrow> (Some e, w3)
                       | (None, w3) \<Rightarrow>
                           (None,
                            print (LogBatchAnalyzed (int (start div bsize) + 1) (length ts))
                              (commit (update_analysis aid
                                 (\<lambda>r. r\<lparr>r_analyzed_count :=
                                          int (min (start + bsize) (length ds))\<rparr>) w3))))))"
        by (simp add: phase1_batch_def l False Responds pj Let_def
            split: sum.splits prod.splits option.splits)
      have r2: "thesis" if "phase1_batch env aid ds bsize p start w = (Some e, w2)" for e
        by (rule raise [OF that only_logs_dframe [OF ol2]])
          (simp_all add: only_logs_fields [OF ol2])
      show ?thesis
      proof (cases "py_iter analyses")
        case (Inl e)
        show ?thesis by (rule r2 [of e]) (simp add: pre Inl)
      next
        case (Inr items)
        show ?thesis
        proof (cases "filename_pairs items")
          case (Inl e)
          show ?thesis by (rule r2 [of e]) (simp add: pre Inr Inl)
        next
          case fp: (Inr m)
          obtain res w3 where sb: "store_batch env m ?batch w2 = (res, w3)"
            by (cases "store_batch env m ?batch w2")
          have df: "dframe ?S w w3"
            using dframe_trans [OF only_logs_dframe [OF ol2] store_batch_dframe [of ?batch w2 env m]]
              sb by simp
          have fl: "archive_analyses w3 = archive_analyses w" "committed w3 = committed w"
            using store_batch_fields [of env m ?batch w2] sb only_logs_fields [OF ol2] by simp_all
          show ?thesis
          proof (cases res)
            case (Some e)
            show ?thesis
              by (rule raise [of e w3]) (simp_all add: pre Inr fp sb Some df fl)
          next
            case None
            let ?w4 = "print (LogBatchAnalyzed (int (start div bsize) + 1) (length ts))
                         (commit (update_analysis aid
                            (\<lambda>r. r\<lparr>r_analyzed_count :=
                                     int (min (start + bsize) (length ds))\<rparr>) w3))"
            have mk: "\<forall>d\<in>set ?batch. \<forall>r\<in>set (drawings w3).
                        d_id r = d_id d \<longrightarrow> d_analyzed_at r \<noteq> None"
              using store_batch_marks [of env m ?batch w2] sb None by simp
            show ?thesis
            proof (rule stored [of ?w4])
              show "phase1_batch env aid ds bsize p start w = (None, ?w4)"
                by (simp add: pre Inr fp sb None)
              show "dframe ?S w ?w4"
                by (rule dframe_trans [OF df]) (simp add: dframe_same)
              show "\<forall>d\<in>set ?batch. \<forall>r\<in>set (drawings ?w4).
                        d_id r = d_id d \<longrightarrow> d_analyzed_at r \<noteq> None"
                using mk by simp
              show "archive_analyses ?w4
                 = map (\<lambda>r. if r_id r = aid
                     then r\<lparr>r_analyzed_count := int (min (start + bsize) (length ds))\<rparr> else r)
                     (archive_analyses w)"
                by (simp add: fl)
              show "committed ?w4 = committed w @ [archive_analyses ?w4]"
                by (simp add: fl)
            qed
          qed
        qed
      qed
    qed
  qed
qed



section \<open>Phase 1 never touches an analyzed drawing\<close>

lemma phase1_batches_dframe:
  "dframe (d_id ` set ds) w (snd (phase1_batches env aid ds bsize p starts w))"
proof (induction starts arbitrary: w)
  case Nil
  then show ?case by (simp add: dframe_same)
next
  case (Cons start starts)
  have sub: "d_id ` set (take bsize (drop start ds)) \<subseteq> d_id ` set ds"
    by (meson image_mono set_drop_subset set_take_subset subset_trans)
  show ?case
  proof (cases rule: phase1_batch_cases [of env aid ds bsize p start w])
    case (skip w1)
    from dframe_trans [OF only_logs_dframe [OF skip(2)] Cons.IH [of w1]]
    show ?thesis by (simp add: skip(1))
  next
    case (raise e w3)
    from dframe_mono [OF sub raise(2)] show ?thesis by (simp add: raise(1))
  next
    case (stored w4)
    from dframe_trans [OF dframe_mono [OF sub stored(2)] Cons.IH [of w4]]
    show ?thesis by (simp add: stored(1))
  qed
qed

lemma phase1_dframe:
  "dframe (d_id ` set (select_unanalyzed w uid)) w (snd (phase1_batch_analysis env uid aid w))"
  using phase1_batches_dframe [of "select_unanalyzed w uid" w env aid]
  by (simp add: phase1_batch_analysis_def Let_def dframe_same)

lemma set_select_unanalyzed:
  "set (select_unanalyzed w uid)
     = {d \<in> set (drawings w). d_user_id d = uid \<and> d_analyzed_at d = None}"
  by (auto simp: select_unanalyzed_def)

lemma length_select_unanalyzed:
  "length (select_unanalyzed w uid)
     = length (filter (\<lambda>d. d_user_id d = uid) (drawings w))
       - length (filter (\<lambda>d. d_user_id d = uid \<and> d_analyzed_at d \<noteq> None) (drawings w))"
proof -
  have "length (filter (\<lambda>d. d_user_id d = uid \<and> d_analyzed_at d = None) xs)
          + length (filter (\<lambda>d. d_user_id d = uid \<and> d_analyzed_at d \<noteq> None) xs)
        = length (filter (\<lambda>d. d_user_id d = uid) xs)" for xs :: "drawing list"
    by (induction xs) auto
  from this [of "drawings w"] show ?thesis by (simp add: select_unanalyzed_def)
qed

lemma length_filter_mono:
  "(\<And>x. x \<in> set xs \<Longrightarrow> P x \<Longrightarrow> Q x) \<Longrightarrow> length (filter P xs) \<le> length (filter Q xs)"
  by (induction xs) auto

lemma changed_rows:
  "length (filter (\<lambda>(a, b). a \<noteq> b) (zip xs (map g xs))) = length (filter (\<lambda>d. d \<noteq> g d) xs)"
  by (induction xs) auto

lemma selected_by_id:
  assumes "distinct (map d_id (drawings w))"
  shows "filter (\<lambda>d. d_id d \<in> d_id ` set (select_unanalyzed w uid)) (drawings w)
           = filter (\<lambda>d. d_user_id d = uid \<and> d_analyzed_at d = None) (drawings w)"
proof (rule filter_cong [OF refl])
  fix d assume d: "d \<in> set (drawings w)"
  from assms have inj: "inj_on d_id (set (drawings w))" by (simp add: distinct_map)
  show "(d_id d \<in> d_id ` set (select_unanalyzed w uid))
          = (d_user_id d = uid \<and> d_analyzed_at d = None)"
  proof
    assume "d_id d \<in> d_id ` set (select_unanalyzed w uid)"
    then obtain d' where d': "d' \<in> set (select_unanalyzed w uid)" "d_id d = d_id d'" by blast
    then have "d' \<in> set (drawings w)" by (simp add: set_select_unanalyzed)
    with inj d d'(2) have "d = d'" by (auto dest: inj_onD)
    with d'(1) show "d_user_id d = uid \<and> d_analyzed_at d = None"
      by (simp add: set_select_unanalyzed)
  next
    assume "d_user_id d = uid \<and> d_analyzed_at d = None"
    with d have "d \<in> set (select_unanalyzed w uid)" by (simp add: set_select_unanalyzed)
    then show "d_id d \<in> d_id ` set (select_unanalyzed w uid)" by blast
  qed
qed

text \<open>
  Claim C2. Phase 1 is idempotent across runs. A drawing whose \<open>analyzed_at\<close> is set
  before the run is never selected; of the \<open>n\<close> drawings of the owner, \<open>k\<close> of them
  analyzed, phase 1 selects exactly \<open>n - k\<close>; every drawing that was analyzed before
  the run is the same row after phase 1, whatever the files and the inference service
  do; and at most \<open>n - k\<close> rows of the table change at all. The ids of the table are
  distinct (the primary key).
\<close>

theorem phase1_skips_analyzed:
  assumes "distinct (map d_id (drawings w))"
  shows "(\<forall>d. d_analyzed_at d \<noteq> None \<longrightarrow> d \<notin> set (select_unanalyzed w user_id))
    \<and> length (select_unanalyzed w user_id)
        = length (filter (\<lambda>d. d_user_id d = user_id) (drawings w))
          - length (filter (\<lambda>d. d_user_id d = user_id \<and> d_analyzed_at d \<noteq> None) (drawings w))
    \<and> length (drawings (snd (phase1_batch_analysis env user_id analysis_id w)))
        = length (drawings w)
    \<and> (\<forall>i<length (drawings w). d_analyzed_at (drawings w ! i) \<noteq> None \<longrightarrow>
          drawings (snd (phase1_batch_analysis env user_id analysis_id w)) ! i = drawings w ! i)
    \<and> length (filter (\<lambda>(a, b). a \<noteq> b)
         (zip (drawings w) (drawings (snd (phase1_batch_analysis env user_id analysis_id w)))))
        \<le> length (filter (\<lambda>d. d_user_id d = user_id) (drawings w))
          - length (filter (\<lambda>d. d_user_id d = user_id \<and> d_analyzed_at d \<noteq> None) (drawings w))"
proof -
  let ?w' = "snd (phase1_batch_analysis env user_id analysis_id w)"
  let ?S = "d_id ` set (select_unanalyzed w user_id)"
  from phase1_dframe [of w user_id env analysis_id] obtain g where
    g: "drawings ?w' = map g (drawings w)" "\<And>d. d_id d \<notin> ?S \<Longrightarrow> g d = d"
    unfolding dframe_def by blast
  have a: "\<forall>d. d_analyzed_at d \<noteq> None \<longrightarrow> d \<notin> set (select_unanalyzed w user_id)"
    by (simp add: set_select_unanalyzed)
  have sel: "filter (\<lambda>d. d_id d \<in> ?S) (drawings w)
           = filter (\<lambda>d. d_user_id d = user_id \<and> d_analyzed_at d = None) (drawings w)"
    by (rule selected_by_id [OF assms])
  have keep: "g d = d" if "d \<in> set (drawings w)" "d_analyzed_at d \<noteq> None" for d
  proof (rule g(2))
    from that have "d \<notin> set (filter (\<lambda>d. d_id d \<in> ?S) (drawings w))"
      by (simp only: sel) simp
    with that(1) show "d_id d \<notin> ?S" by simp
  qed
  have c: "\<forall>i<length (drawings w). d_analyzed_at (drawings w ! i) \<noteq> None \<longrightarrow>
             drawings ?w' ! i = drawings w ! i"
    by (simp add: g(1) keep)
  have "length (filter (\<lambda>(a, b). a \<noteq> b) (zip (drawings w) (drawings ?w')))
          = length (filter (\<lambda>d. d \<noteq> g d) (drawings w))"
    by (simp only: g(1) changed_rows)
  also have "\<dots> \<le> length (filter (\<lambda>d. d_id d \<in> ?S) (drawings w))"
    by (rule length_filter_mono) (use g(2) in metis)
  also have "\<dots> = length (select_unanalyzed w user_id)"
    by (simp only: sel) (simp add: select_unanalyzed_def)
  finally have d: "length (filter (\<lambda>(a, b). a \<noteq> b) (zip (drawings w) (drawings ?w')))
          \<le> length (filter (\<lambda>d. d_user_id d = user_id) (drawings w))
          - length (filter (\<lambda>d. d_user_id d = user_id \<and> d_analyzed_at d \<noteq> None) (drawings w))"
    by (simp only: length_select_unanalyzed)
  have b: "length (drawings ?w') = length (drawings w)" by (simp add: g(1))
  from a length_select_unanalyzed [of w user_id] b c d show ?thesis by blast
qed


theorem phase1_skips_analyzed_witness:
  "distinct (map d_id (drawings world1))
   \<and> length (select_unanalyzed world1 1) = 2
   \<and> drawings (snd (phase1_batch_analysis env_ok 1 1 world1)) ! 0 = drawings world1 ! 0"
proof -
  have d: "distinct (map d_id (drawings world1))"
    by (simp add: world1_def world0_def drawing0_def drawing_a_def drawing_b_def drawing_c_def)
  have n: "length (filter (\<lambda>d. d_user_id d = 1) (drawings world1))
           - length (filter (\<lambda>d. d_user_id d = 1 \<and> d_analyzed_at d \<noteq> None) (drawings world1)) = 2"
    by (simp add: world1_def world0_def drawing0_def drawing_a_def drawing_b_def drawing_c_def)
  have a: "0 < length (drawings world1) \<and> d_analyzed_at (drawings world1 ! 0) \<noteq> None"
    by (simp add: world1_def world0_def drawing0_def drawing_a_def drawing_b_def drawing_c_def)
  from phase1_skips_analyzed [OF d, of 1 env_ok 1] n a d show ?thesis by simp
qed

section \<open>A stored group is marked as a whole\<close>

lemma strip_response: "strip_markdown_fences ''response'' = ''response''"
  by (simp add: strip_markdown_fences_def fence_def newline_def py_strip_def py_isspace_def
      py_startswith_def py_endswith_def)

lemmas eval_load = load_image_def prepare_image_bytes_def MAX_IMAGE_BYTES_def py_lower_def
  py_lower_char_def Let_def

lemma env_strings_fields:
  "analyze_batch env_strings = (\<lambda>images prompt max_tokens. Responds ''response'')"
  "json_loads env_strings ''response'' = Some (JArr [JStr ''a tree''])"
  "read_file env_strings = (\<lambda>path. Some ''bytes'')"
  "settings_of env_strings = settings_of env0"
  by (simp_all add: env_strings_def env0_def)

lemma env_unreadable_fields:
  "analyze_batch env_unreadable = (\<lambda>images prompt max_tokens. Responds ''response'')"
  "json_loads env_unreadable ''response''
     = Some (JArr [JObj [(''filename'', JStr ''b.jpg''), (''description'', JStr ''a tree'')]])"
  "read_file env_unreadable = (\<lambda>path. if path = ''/c.jpg'' then None else Some ''bytes'')"
  "settings_of env_unreadable = settings_of env0"
  "now env_unreadable = ''2024-01-01 00:00:00''"
  "json_dumps env_unreadable = (\<lambda>v. ''json'')"
  by (simp_all add: env_unreadable_def env_ok_def env0_def)

lemma load_one: "load_images env_strings [drawing0] w = ([(''bytes'', ''image/jpeg'', ''a.jpg'')], w)"
  by (simp add: eval_load env_strings_fields drawing0_def)

lemma parse_strings: "parse_json_list env_strings ''response'' w = (JArr [JStr ''a tree''], w)"
  by (simp only: parse_json_list_def strip_response Let_def) (simp add: env_strings_fields)

lemma cex: "phase1_batch env_strings 1 [drawing0] 8 prompt 0 w = (Some AttributeError, w)"
  by (simp add: phase1_batch_def load_one parse_strings env_strings_fields Let_def del: load_images.simps)

lemma sel1: "select_unanalyzed world1 1 = [drawing_c, drawing_b]"
  by (simp add: select_unanalyzed_def world1_def world0_def drawing0_def drawing_a_def drawing_b_def drawing_c_def)

lemma load_two: "load_images env_unreadable [drawing_c, drawing_b] w
   = ([(''bytes'', ''image/jpeg'', ''b.jpg'')], print (LogCouldNotLoad ''/c.jpg'') w)"
  by (simp add: eval_load env_unreadable_fields world1_def world0_def drawing0_def drawing_a_def drawing_b_def drawing_c_def)

lemma parse_ok: "parse_json_list env_unreadable ''response'' w
   = (JArr [JObj [(''filename'', JStr ''b.jpg''), (''description'', JStr ''a tree'')]], w)"
  by (simp only: parse_json_list_def strip_response Let_def)
     (simp add: env_unreadable_fields)

lemma py_range_one:
  assumes "0 < n" "n \<le> step"
  shows "py_range n step = [0]"
proof -
  have e: "[0..<n] = 0 # [Suc 0..<n]" using assms by (simp add: upt_conv_Cons)
  have "filter (\<lambda>i. i mod step = 0) [Suc 0..<n] = []"
    using assms by (auto simp: filter_empty_conv)
  then show ?thesis by (simp add: py_range_def e)
qed

text \<open>
  What the loop body does when it stores a group. If at least one image of a group
  loads, the group's inference call succeeds, and the body ends without an exception,
  then every drawing of the group has \<open>analyzed_at\<close> set afterwards, also the drawings
  whose file could not be read; none of them is selected by phase 1 again; and
  \<open>analyzed_at\<close> stays set through the rest of the loop.
\<close>

theorem phase1_batch_marks_group:
  assumes "fst (load_images env (take bsize (drop start ds)) w) \<noteq> []"
    and "analyze_batch env (fst (load_images env (take bsize (drop start ds)) w)) prompt
           (int (length (fst (load_images env (take bsize (drop start ds)) w)))
              * max_tokens_per_image (settings_of env) + 500) = Responds raw_response"
    and "fst (phase1_batch env analysis_id ds bsize prompt start w) = None"
  shows "(\<forall>d\<in>set (take bsize (drop start ds)).
            \<forall>r\<in>set (drawings (snd (phase1_batch env analysis_id ds bsize prompt start w))).
              d_id r = d_id d \<longrightarrow> d_analyzed_at r \<noteq> None)
       \<and> (\<forall>d\<in>set (take bsize (drop start ds)).
            \<forall>r\<in>set (select_unanalyzed
                       (snd (phase1_batch env analysis_id ds bsize prompt start w)) user_id).
              d_id r \<noteq> d_id d)
       \<and> (\<forall>d\<in>set (take bsize (drop start ds)).
            \<forall>r\<in>set (drawings
                       (snd (phase1_batches env analysis_id ds bsize prompt (start # starts) w))).
              d_id r = d_id d \<longrightarrow> d_analyzed_at r \<noteq> None)"
proof (cases rule: phase1_batch_cases [of env analysis_id ds bsize prompt start w])
  case (skip w1)
  with assms(1,2) show ?thesis by auto
next
  case (raise e w3)
  with assms(3) show ?thesis by simp
next
  case (stored w4)
  let ?batch = "take bsize (drop start ds)"
  have a: "\<forall>d\<in>set ?batch. \<forall>r\<in>set (drawings w4). d_id r = d_id d \<longrightarrow> d_analyzed_at r \<noteq> None"
    by (rule stored(3))
  have b: "\<forall>d\<in>set ?batch. \<forall>r\<in>set (select_unanalyzed w4 user_id). d_id r \<noteq> d_id d"
  proof (intro ballI notI)
    fix d r
    assume d: "d \<in> set ?batch" and r: "r \<in> set (select_unanalyzed w4 user_id)"
      and eq: "d_id r = d_id d"
    from r have "r \<in> set (drawings w4)" "d_analyzed_at r = None"
      by (simp_all add: set_select_unanalyzed)
    with a d eq show False by blast
  qed
  have c: "\<forall>d\<in>set ?batch.
             \<forall>r\<in>set (drawings (snd (phase1_batches env analysis_id ds bsize prompt starts w4))).
               d_id r = d_id d \<longrightarrow> d_analyzed_at r \<noteq> None"
  proof (intro ballI impI)
    fix d r
    assume d: "d \<in> set ?batch"
      and r: "r \<in> set (drawings (snd (phase1_batches env analysis_id ds bsize prompt starts w4)))"
      and eq: "d_id r = d_id d"
    from dframe_row [OF phase1_batches_dframe r]
    obtain r0 where "r0 \<in> set (drawings w4)" "d_id r0 = d_id r"
      "d_analyzed_at r0 \<noteq> None \<longrightarrow> d_analyzed_at r \<noteq> None" by blast
    with a d eq show "d_analyzed_at r \<noteq> None" by auto
  qed
  from a b c show ?thesis by (simp add: stored(1))
qed

lemma group_eval:
  "fst (phase1_batch env_unreadable 1 [drawing_c, drawing_b] 8 ''describe'' 0 world1) = None"
  "map (\<lambda>d. (d_id d, d_analysis_text d, d_analyzed_at d))
     (drawings (snd (phase1_batch env_unreadable 1 [drawing_c, drawing_b] 8
        ''describe'' 0 world1)))
   = [(1, Some ''a house'', Some ''2023-12-31 00:00:00''),
      (2, Some ''a tree'', Some ''2024-01-01 00:00:00''),
      (3, None, Some ''2024-01-01 00:00:00'')]"
  by (simp_all add: phase1_batch_def load_two parse_ok env_unreadable_fields Let_def dict_get_def
      lookup_filename_def del: load_images.simps)
    (simp_all add: world1_def world0_def drawing0_def drawing_a_def drawing_b_def drawing_c_def)

lemma sel_one: "select_unanalyzed (pipeline_start 1 1 world_one) 1 = [drawing0]"
  by (simp add: select_unanalyzed_def pipeline_start_def world_one_def world0_def drawing0_def)

lemma bs0: "batch_size (settings_of env0) = 8"
  by (simp add: env0_def)

lemma cex_phase1:
  "phase1_batch_analysis env_strings 1 1 (pipeline_start 1 1 world_one)
     = (Some AttributeError, pipeline_start 1 1 world_one)"
  by (simp add: phase1_batch_analysis_def sel_one env_strings_fields bs0 py_range_one cex Let_def)

text \<open>
  Claim C9 says that in phase 1, when at least one image of a group loads and the
  group's inference call succeeds, every drawing of the group gets \<open>analyzed_at\<close> set,
  also a drawing whose file cannot be read. The code intends this (both branches of its
  loop set \<open>analyzed_at\<close>, the second under the comment
  \<^verbatim>\<open># Mark as attempted even if no result\<close>), but it calls \<open>item.get\<close> on every element
  of the parsed list without checking that the element is an object. Evaluated on a
  store with one new drawing, whose image loads, and a call that succeeds with a JSON
  list of strings: building the dict of analyses raises \<open>AttributeError\<close> before any
  \<open>UPDATE\<close>, no drawing of the group is marked, and the run ends as \<open>failed\<close>.
\<close>

theorem group_left_unmarked:
  "load_images env_strings (take 8 (drop 0 [drawing0])) world_one
     = ([(''bytes'', ''image/jpeg'', ''a.jpg'')], world_one)
   \<and> analyze_batch env_strings [(''bytes'', ''image/jpeg'', ''a.jpg'')] ''describe''
       (int (length [(''bytes'', ''image/jpeg'', ''a.jpg'')])
          * max_tokens_per_image (settings_of env_strings) + 500) = Responds ''response''
   \<and> phase1_batch env_strings 1 [drawing0] 8 ''describe'' 0 world_one
       = (Some AttributeError, world_one)
   \<and> map d_analyzed_at (drawings world_one) = [None]
   \<and> map d_analyzed_at (drawings (run_full_pipeline env_strings 1 1 world_one)) = [None]
   \<and> map r_status (archive_analyses (run_full_pipeline env_strings 1 1 world_one)) = [''failed'']"
proof -
  have "map d_analyzed_at (drawings world_one) = [None]"
    by (simp add: world_one_def world0_def drawing0_def)
  moreover have "run_full_pipeline env_strings 1 1 world_one
      = pipeline_failed env_strings 1 AttributeError (pipeline_start 1 1 world_one)"
    by (simp add: run_full_pipeline_def pipeline_phases_def cex_phase1)
  moreover have "map d_analyzed_at
      (drawings (pipeline_failed env_strings 1 AttributeError (pipeline_start 1 1 world_one)))
      = [None]"
    by (simp add: pipeline_failed_def pipeline_start_def world_one_def world0_def drawing0_def)
  moreover have "map r_status (archive_analyses
      (pipeline_failed env_strings 1 AttributeError (pipeline_start 1 1 world_one))) = [''failed'']"
    by (simp add: pipeline_failed_def pipeline_start_def world_one_def world0_def run0_def)
  ultimately show ?thesis
    by (simp add: load_one cex env_strings_fields del: load_images.simps)
qed

theorem phase1_batch_marks_group_witness:
  "fst (load_images env_unreadable (take 8 (drop 0 [drawing_c, drawing_b])) world1)
     = [(''bytes'', ''image/jpeg'', ''b.jpg'')]
   \<and> fst (phase1_batch env_unreadable 1 [drawing_c, drawing_b] 8 ''describe'' 0 world1) = None
   \<and> map (\<lambda>d. (d_id d, d_analysis_text d, d_analyzed_at d))
        (drawings (snd (phase1_batch env_unreadable 1 [drawing_c, drawing_b] 8
           ''describe'' 0 world1)))
      = [(1, Some ''a house'', Some ''2023-12-31 00:00:00''),
         (2, Some ''a tree'', Some ''2024-01-01 00:00:00''),
         (3, None, Some ''2024-01-01 00:00:00'')]
   \<and> filter (\<lambda>r. d_id r = d_id drawing_c \<and> d_analyzed_at r = None)
        (drawings (snd (phase1_batch env_unreadable 1 [drawing_c, drawing_b] 8
           ''describe'' 0 world1))) = []"
proof -
  let ?ds = "[drawing_c, drawing_b]"
  have l: "fst (load_images env_unreadable (take 8 (drop 0 ?ds)) world1)
             = [(''bytes'', ''image/jpeg'', ''b.jpg'')]"
    by (simp add: load_two del: load_images.simps)
  then have h1: "fst (load_images env_unreadable (take 8 (drop 0 ?ds)) world1) \<noteq> []"
    by (simp only:) simp
  have h2: "analyze_batch env_unreadable
              (fst (load_images env_unreadable (take 8 (drop 0 ?ds)) world1)) ''describe''
              (int (length (fst (load_images env_unreadable (take 8 (drop 0 ?ds)) world1)))
                 * max_tokens_per_image (settings_of env_unreadable) + 500)
            = Responds ''response''"
    by (simp add: env_unreadable_fields)
  note h3 = group_eval(1)
  from phase1_batch_marks_group [OF h1 h2 h3, of 1 "[]"]
  have "\<forall>r\<in>set (drawings (snd (phase1_batch env_unreadable 1 ?ds 8 ''describe'' 0 world1))).
          d_id r = d_id drawing_c \<longrightarrow> d_analyzed_at r \<noteq> None"
    by simp
  then have "filter (\<lambda>r. d_id r = d_id drawing_c \<and> d_analyzed_at r = None)
        (drawings (snd (phase1_batch env_unreadable 1 ?ds 8 ''describe'' 0 world1))) = []"
    by (auto simp: filter_empty_conv)
  with l h3 group_eval(2) show ?thesis by (intro conjI)
qed

section \<open>Failures of the inference service\<close>






lemma phase2_call_fails:
  assumes "select_analyzed w uid \<noteq> []"
    and "synthesize_text env
           (render_lens_discovery env (year_range_of (select_analyzed w uid))
              (length (select_analyzed w uid)) (concat (map summary_line (select_analyzed w uid))))
           (max_tokens_lens_discovery (settings_of env)) = Raises e"
  shows "phase2_lens_discovery env uid aid w
           = (Some (RuntimeError (''Lens discovery API call failed: '' @ e)), w)"
  using assms by (simp add: phase2_lens_discovery_def Let_def)

lemma update_analysis_row:
  assumes "r \<in> set (archive_analyses (update_analysis i f w))"
  obtains x where "x \<in> set (archive_analyses w)" "r = (if r_id x = i then f x else x)"
proof -
  from assms have "r \<in> (\<lambda>x. if r_id x = i then f x else x) ` set (archive_analyses w)"
    by (simp add: update_analysis_def)
  then show ?thesis using that by blast
qed



lemma phase1_keeps_analyzed:
  assumes "distinct (map d_id (drawings w))" "d \<in> set (drawings w)" "d_analyzed_at d \<noteq> None"
  shows "d \<in> set (drawings (snd (phase1_batch_analysis env uid aid w)))"
proof -
  let ?S = "d_id ` set (select_unanalyzed w uid)"
  from phase1_dframe [of w uid env aid] obtain g where
    g: "drawings (snd (phase1_batch_analysis env uid aid w)) = map g (drawings w)"
       "\<And>d. d_id d \<notin> ?S \<Longrightarrow> g d = d"
    unfolding dframe_def by blast
  from assms(2,3) have "d \<notin> set (filter (\<lambda>d. d_id d \<in> ?S) (drawings w))"
    by (simp only: selected_by_id [OF assms(1)]) simp
  with assms(2) have "d_id d \<notin> ?S" by simp
  then have "g d = d" by (rule g(2))
  with assms(2) have "d \<in> g ` set (drawings w)" by force
  then show ?thesis by (simp add: g(1))
qed
























section \<open>The progress counter of a run\<close>

lemma counts_of_append: "counts_of aid (xs @ ys) = counts_of aid xs @ counts_of aid ys"
  by (simp add: counts_of_def)

lemma counts_of_single:
  "counts_of aid [snap] = map r_analyzed_count (filter (\<lambda>r. r_id r = aid) snap)"
  by (simp add: counts_of_def)

lemma run_inv_cong:
  assumes "archive_analyses w' = archive_analyses w" "committed w' = committed w"
  shows "run_inv aid n0 t c w' = run_inv aid n0 t c w"
  by (simp add: run_inv_def assms)

lemma sorted_const: "(\<forall>v\<in>set xs. v = c) \<Longrightarrow> sorted (xs :: int list)"
  by (induction xs) auto

lemma run_inv_commit:
  assumes "run_inv aid n0 t c w" "c \<le> t"
  shows "run_inv aid n0 t c (commit w)"
proof -
  let ?new = "map r_analyzed_count (filter (\<lambda>r. r_id r = aid) (archive_analyses w))"
  from assms(1) have n0: "n0 \<le> length (committed w)"
    and cur: "\<forall>r\<in>set (archive_analyses w).
           r_id r = aid \<longrightarrow> r_analyzed_count r = c \<and> r_total_drawings r = t"
    and srt: "sorted (counts_of aid (drop n0 (committed w)))"
    and le: "\<forall>v\<in>set (counts_of aid (drop n0 (committed w))). v \<le> c"
    and bd: "\<forall>snap\<in>set (drop n0 (committed w)). \<forall>r\<in>set snap.
           r_id r = aid \<longrightarrow> r_analyzed_count r \<le> r_total_drawings r"
    unfolding run_inv_def by blast+
  have new: "\<forall>v\<in>set ?new. v = c" using cur by auto
  have d: "drop n0 (committed w @ [archive_analyses w])
             = drop n0 (committed w) @ [archive_analyses w]"
    using n0 by simp
  have "sorted (counts_of aid (drop n0 (committed w)) @ ?new)"
    using srt le new sorted_const [OF new] by (auto simp: sorted_append)
  moreover have "\<forall>v\<in>set (counts_of aid (drop n0 (committed w)) @ ?new). v \<le> c"
    using le new by auto
  moreover have "\<forall>snap\<in>set (drop n0 (committed w) @ [archive_analyses w]). \<forall>r\<in>set snap.
           r_id r = aid \<longrightarrow> r_analyzed_count r \<le> r_total_drawings r"
    using bd cur assms(2) by auto
  moreover have "n0 \<le> length (committed w @ [archive_analyses w])" using n0 by simp
  ultimately show ?thesis
    unfolding run_inv_def commit_fields d counts_of_append counts_of_single
    using cur by blast
qed

lemma run_inv_update:
  assumes "run_inv aid n0 t c w" "c \<le> c'"
    and f: "\<And>r. r_analyzed_count r = c \<Longrightarrow> r_analyzed_count (f r) = c'"
      "\<And>r. r_total_drawings (f r) = r_total_drawings r"
      "\<And>r. r_id (f r) = r_id r"
  shows "run_inv aid n0 t c' (update_analysis aid f w)"
proof -
  from assms(1) have n0: "n0 \<le> length (committed w)"
    and cur: "\<forall>r\<in>set (archive_analyses w).
           r_id r = aid \<longrightarrow> r_analyzed_count r = c \<and> r_total_drawings r = t"
    and srt: "sorted (counts_of aid (drop n0 (committed w)))"
    and le: "\<forall>v\<in>set (counts_of aid (drop n0 (committed w))). v \<le> c"
    and bd: "\<forall>snap\<in>set (drop n0 (committed w)). \<forall>r\<in>set snap.
           r_id r = aid \<longrightarrow> r_analyzed_count r \<le> r_total_drawings r"
    unfolding run_inv_def by blast+
  have cur': "\<forall>r\<in>set (archive_analyses (update_analysis aid f w)).
           r_id r = aid \<longrightarrow> r_analyzed_count r = c' \<and> r_total_drawings r = t"
  proof (intro ballI impI)
    fix r assume r: "r \<in> set (archive_analyses (update_analysis aid f w))"
      and id: "r_id r = aid"
    from r obtain x where x: "x \<in> set (archive_analyses w)" "r = (if r_id x = aid then f x else x)"
      by (rule update_analysis_row)
    show "r_analyzed_count r = c' \<and> r_total_drawings r = t"
    proof (cases "r_id x = aid")
      case True
      with x cur show ?thesis by (simp add: f)
    next
      case False
      with x id show ?thesis by simp
    qed
  qed
  have le': "\<forall>v\<in>set (counts_of aid (drop n0 (committed w))). v \<le> c'"
    using le assms(2) by auto
  show ?thesis
    unfolding run_inv_def using n0 cur' srt le' bd by simp
qed


lemma phase1_batch_inv:
  assumes "run_inv aid n0 t c w" "c \<le> int (min (start + bsize) (length ds))"
    "int (length ds) \<le> t" "c \<le> t"
  shows "\<exists>c'. c \<le> c' \<and> c' \<le> int (min (start + bsize) (length ds)) \<and> c' \<le> t
           \<and> run_inv aid n0 t c' (snd (phase1_batch env aid ds bsize p start w))"
proof (cases rule: phase1_batch_cases [of env aid ds bsize p start w])
  case (skip w1)
  have "run_inv aid n0 t c w1"
    using assms(1) run_inv_cong [of w1 w] only_logs_fields [OF skip(2)] by simp
  with assms show ?thesis by (auto simp: skip(1))
next
  case (raise e w3)
  have "run_inv aid n0 t c w3"
    using assms(1) run_inv_cong [of w3 w] raise(3,4) by simp
  with assms show ?thesis by (auto simp: raise(1))
next
  case (stored w4)
  let ?c = "int (min (start + bsize) (length ds))"
  let ?w = "commit (update_analysis aid (\<lambda>r. r\<lparr>r_analyzed_count := ?c\<rparr>) w)"
  have ct: "?c \<le> t" using assms(3) by simp
  have "run_inv aid n0 t ?c (update_analysis aid (\<lambda>r. r\<lparr>r_analyzed_count := ?c\<rparr>) w)"
    by (rule run_inv_update [OF assms(1,2)]) simp_all
  then have "run_inv aid n0 t ?c ?w" using ct by (rule run_inv_commit)
  moreover have "archive_analyses w4 = archive_analyses ?w" "committed w4 = committed ?w"
    by (simp_all add: stored(4,5))
  ultimately have "run_inv aid n0 t ?c w4" using run_inv_cong [of w4 ?w] by simp
  with assms(2) ct show ?thesis by (auto simp: stored(1))
qed

lemma phase1_batches_inv:
  assumes "sorted starts" "\<forall>x\<in>set starts. c \<le> int (min (x + bsize) (length ds))"
    "int (length ds) \<le> t" "c \<le> t" "run_inv aid n0 t c w"
  shows "\<exists>c'. c' \<le> t \<and> run_inv aid n0 t c' (snd (phase1_batches env aid ds bsize p starts w))"
  using assms
proof (induction starts arbitrary: c w)
  case Nil
  then show ?case by auto
next
  case (Cons start starts)
  from Cons.prems have c: "c \<le> int (min (start + bsize) (length ds))" by simp
  from phase1_batch_inv [OF Cons.prems(5) c Cons.prems(3,4), of env p]
  obtain c' where c': "c \<le> c'" "c' \<le> int (min (start + bsize) (length ds))" "c' \<le> t"
    "run_inv aid n0 t c' (snd (phase1_batch env aid ds bsize p start w))" by blast
  obtain res w1 where b: "phase1_batch env aid ds bsize p start w = (res, w1)"
    by (cases "phase1_batch env aid ds bsize p start w")
  show ?case
  proof (cases res)
    case (Some e)
    with b c' show ?thesis by auto
  next
    case None
    have srt: "sorted starts" using Cons.prems(1) by simp
    have "\<forall>x\<in>set starts. c' \<le> int (min (x + bsize) (length ds))"
    proof
      fix x assume x: "x \<in> set starts"
      with Cons.prems(1) have "start \<le> x" by auto
      then have "min (start + bsize) (length ds) \<le> min (x + bsize) (length ds)" by simp
      with c'(2) show "c' \<le> int (min (x + bsize) (length ds))" by linarith
    qed
    from Cons.IH [OF srt this Cons.prems(3) c'(3), of w1] c'(4) b
    obtain c'' where "c'' \<le> t"
      "run_inv aid n0 t c'' (snd (phase1_batches env aid ds bsize p starts w1))" by auto
    with b None show ?thesis by auto
  qed
qed

lemma sorted_py_range: "sorted (py_range n step)"
  unfolding py_range_def by (rule sorted_wrt_filter) simp

lemma phase1_inv:
  assumes "run_inv aid n0 t 0 w" "int (length (select_unanalyzed w uid)) \<le> t"
  shows "\<exists>c'. c' \<le> t \<and> run_inv aid n0 t c' (snd (phase1_batch_analysis env uid aid w))"
proof -
  let ?ds = "select_unanalyzed w uid"
  let ?b = "nat (batch_size (settings_of env))"
  have t: "0 \<le> t" using assms(2) by linarith
  have "\<forall>x\<in>set (py_range (length ?ds) ?b). (0::int) \<le> int (min (x + ?b) (length ?ds))" by simp
  from phase1_batches_inv [OF sorted_py_range this assms(2) t assms(1), of env "render_batch_analysis env"]
  obtain c' where "c' \<le> t" "run_inv aid n0 t c'
      (snd (phase1_batches env aid ?ds ?b (render_batch_analysis env)
         (py_range (length ?ds) ?b) w))" by blast
  with assms(1) t show ?thesis
    by (auto simp: phase1_batch_analysis_def Let_def)
qed


lemma insert_or_ignore_lens_fields:
  "archive_analyses (snd (insert_or_ignore_lens uid aid n d so raw w)) = archive_analyses w"
  "committed (snd (insert_or_ignore_lens uid aid n d so raw w)) = committed w"
  "drawings (snd (insert_or_ignore_lens uid aid n d so raw w)) = drawings w"
  "users (snd (insert_or_ignore_lens uid aid n d so raw w)) = users w"
  "lens_drawing_links (snd (insert_or_ignore_lens uid aid n d so raw w)) = lens_drawing_links w"
  "seq_links (snd (insert_or_ignore_lens uid aid n d so raw w)) = seq_links w"
  by (simp_all add: insert_or_ignore_lens_def Let_def split: option.splits)

lemma insert_or_ignore_link_fields:
  "archive_analyses (insert_or_ignore_link lid did x w) = archive_analyses w"
  "committed (insert_or_ignore_link lid did x w) = committed w"
  "drawings (insert_or_ignore_link lid did x w) = drawings w"
  "users (insert_or_ignore_link lid did x w) = users w"
  "lenses (insert_or_ignore_link lid did x w) = lenses w"
  "seq_lenses (insert_or_ignore_link lid did x w) = seq_lenses w"
  by (simp_all add: insert_or_ignore_link_def Let_def)

lemma store_links_fields:
  "archive_analyses (snd (store_links env f lid scores w)) = archive_analyses w
   \<and> committed (snd (store_links env f lid scores w)) = committed w
   \<and> drawings (snd (store_links env f lid scores w)) = drawings w
   \<and> users (snd (store_links env f lid scores w)) = users w
   \<and> lenses (snd (store_links env f lid scores w)) = lenses w
   \<and> seq_lenses (snd (store_links env f lid scores w)) = seq_lenses w"
proof (induction scores arbitrary: w)
  case Nil
  then show ?case by simp
next
  case (Cons a scores)
  obtain filename score where a: "a = (filename, score)" by (cases a)
  show ?case
    using Cons.IH insert_or_ignore_link_fields
    by (simp add: a split: option.splits sum.splits)
qed

lemma store_lens_cases:
  obtains (raise) e w1 where
      "store_lens env uid aid f so ld w = (Some e, w1)"
      "archive_analyses w1 = archive_analyses w" "committed w1 = committed w"
  | (stored) w2 where
      "store_lens env uid aid f so ld w = (None, w2)"
      "archive_analyses w2 = archive_analyses w"
      "committed w2 = committed w @ [archive_analyses w]"
proof (cases ld)
  case (JObj kvs)
  let ?name = "dict_get kvs ''name'' (JStr (default_lens_name so))"
  let ?desc = "dict_get kvs ''description'' (JStr [])"
  let ?rel = "dict_get kvs ''drawing_relevance'' (JObj [])"
  show ?thesis
  proof (cases "bind_text env ?name")
    case (Inl e)
    show ?thesis by (rule raise [of e w]) (simp_all add: store_lens_def JObj Inl Let_def)
  next
    case n: (Inr name_text)
    show ?thesis
    proof (cases "bind_text env ?desc")
      case (Inl e)
      show ?thesis by (rule raise [of e w]) (simp_all add: store_lens_def JObj n Inl Let_def)
    next
      case d: (Inr description_text)
      obtain res w1 where i: "insert_or_ignore_lens uid aid name_text description_text (int so)
          (json_dumps env ld) w = (res, w1)"
        by (cases "insert_or_ignore_lens uid aid name_text description_text (int so)
          (json_dumps env ld) w")
      have w1: "archive_analyses w1 = archive_analyses w" "committed w1 = committed w"
        using insert_or_ignore_lens_fields(1,2)
          [of uid aid name_text description_text "int so" "json_dumps env ld" w] i by simp_all
      have pre: "store_lens env uid aid f so ld w
        = (case res of
             Some e \<Rightarrow> (Some e, w1)
           | None \<Rightarrow>
             (case select_lens_id w1 uid name_text of
                None \<Rightarrow> (Some TypeError, w1)
              | Some lens_id \<Rightarrow>
                 (case ?rel of
                    JObj scores \<Rightarrow>
                      (case store_links env f lens_id scores w1 of
                         (Some e, w2) \<Rightarrow> (Some e, w2)
                       | (None, w2) \<Rightarrow>
                           (None, print (LogLensStored name_text (length scores)) (commit w2)))
                  | _ \<Rightarrow> (Some AttributeError, w1))))"
        using i by (simp add: store_lens_def JObj n d Let_def split: option.splits)
      show ?thesis
      proof (cases res)
        case (Some e)
        show ?thesis by (rule raise [of e w1]) (simp_all add: pre Some w1)
      next
        case None
        show ?thesis
        proof (cases "select_lens_id w1 uid name_text")
          case sn: None
          show ?thesis by (rule raise [of TypeError w1]) (simp_all add: pre None sn w1)
        next
          case sl: (Some lens_id)
          show ?thesis
          proof (cases ?rel)
            case rel: (JObj scores)
            obtain r2 w2 where sk: "store_links env f lens_id scores w1 = (r2, w2)"
              by (cases "store_links env f lens_id scores w1")
            have w2: "archive_analyses w2 = archive_analyses w" "committed w2 = committed w"
              using store_links_fields [of env f lens_id scores w1] sk w1 by simp_all
            show ?thesis
            proof (cases r2)
              case (Some e)
              show ?thesis
                by (rule raise [of e w2]) (simp_all add: pre None sl rel sk Some w2)
            next
              case r2n: None
              show ?thesis
                by (rule stored [of "print (LogLensStored name_text (length scores)) (commit w2)"])
                  (simp_all add: pre None sl rel sk r2n w2)
            qed
          qed (rule raise [of AttributeError w1], simp_all add: pre None sl w1)+
        qed
      qed
    qed
  qed
qed (rule raise [of AttributeError w], simp_all add: store_lens_def)+


lemma store_lens_inv:
  assumes "run_inv a n0 t c w" "c \<le> t"
  shows "run_inv a n0 t c (snd (store_lens env uid aid f so ld w))"
proof (cases rule: store_lens_cases [of env uid aid f so ld w])
  case (raise e w1)
  with assms(1) run_inv_cong [of w1 w] show ?thesis by simp
next
  case (stored w2)
  have "archive_analyses w2 = archive_analyses (commit w)" "committed w2 = committed (commit w)"
    by (simp_all add: stored(2,3))
  with run_inv_commit [OF assms] run_inv_cong [of w2 "commit w"] stored(1)
  show ?thesis by simp
qed

lemma store_lenses_inv:
  assumes "run_inv a n0 t c w" "c \<le> t"
  shows "run_inv a n0 t c (snd (store_lenses env uid aid f so lds w))"
  using assms(1)
proof (induction lds arbitrary: w so)
  case Nil
  then show ?case by simp
next
  case (Cons ld lds)
  obtain res w1 where s: "store_lens env uid aid f so ld w = (res, w1)"
    by (cases "store_lens env uid aid f so ld w")
  have w1: "run_inv a n0 t c w1"
    using store_lens_inv [OF Cons.prems assms(2), of env uid aid f so ld] s by simp
  show ?case
  proof (cases res)
    case None
    with Cons.IH [OF w1, of "Suc so"] s show ?thesis by simp
  next
    case (Some e)
    with w1 s show ?thesis by simp
  qed
qed

lemma phase2_inv:
  assumes "run_inv a n0 t c w" "c \<le> t"
  shows "run_inv a n0 t c (snd (phase2_lens_discovery env uid aid w))"
proof -
  let ?rows = "select_analyzed w uid"
  have pr: "run_inv a n0 t c (print e w')" if "run_inv a n0 t c w'" for e w'
    using that run_inv_cong [of "print e w'" w'] by simp
  show ?thesis
  proof (cases "?rows = []")
    case True
    then show ?thesis using pr [OF assms(1)] by (simp add: phase2_lens_discovery_def)
  next
    case False
    let ?call = "synthesize_text env
        (render_lens_discovery env (year_range_of ?rows) (length ?rows)
           (concat (map summary_line ?rows)))
        (max_tokens_lens_discovery (settings_of env))"
    show ?thesis
    proof (cases ?call)
      case (Raises e)
      then show ?thesis using assms(1) False by (simp add: phase2_lens_discovery_def Let_def)
    next
      case (Responds raw)
      obtain v w1 where p: "parse_json_dict env raw w = (v, w1)"
        by (cases "parse_json_dict env raw w")
      have "only_logs w w1" using only_logs_parse_dict [of w env raw] p by simp
      then have w1: "run_inv a n0 t c w1"
        using assms(1) run_inv_cong [of w1 w] by (simp add: only_logs_fields)
      have pre: "phase2_lens_discovery env uid aid w
        = (case v of
             JObj kvs \<Rightarrow>
               (let lenses_data = dict_get kvs ''lenses'' (JArr []) in
                if \<not> py_truthy lenses_data
                then (None, print (LogNoLensesReturned (take 500 raw)) w1)
                else (case py_iter lenses_data of
                        Inl e \<Rightarrow> (Some e, w1)
                      | Inr descriptors \<Rightarrow>
                          store_lenses env uid aid
                            (map_of (rev (map (\<lambda>r. (d_filename r, d_id r)) ?rows)))
                            0 descriptors w1))
           | _ \<Rightarrow> (Some AttributeError, w1))"
        using False by (simp add: phase2_lens_discovery_def Let_def Responds p split: json.splits)
      show ?thesis
      proof (cases v)
        case (JObj kvs)
        show ?thesis
        proof (cases "py_truthy (dict_get kvs ''lenses'' (JArr []))")
          case False
          then show ?thesis using pr [OF w1] by (simp add: pre JObj)
        next
          case True
          show ?thesis
          proof (cases "py_iter (dict_get kvs ''lenses'' (JArr []))")
            case (Inl e)
            then show ?thesis using w1 True by (simp add: pre JObj)
          next
            case (Inr descriptors)
            then show ?thesis
              using store_lenses_inv [OF w1 assms(2)] True by (simp add: pre JObj)
          qed
        qed
      qed (use w1 in \<open>simp_all add: pre\<close>)
    qed
  qed
qed


lemma run_inv_update_same:
  assumes "run_inv a n0 t c w"
    and "\<And>r. r_analyzed_count (f r) = r_analyzed_count r"
      "\<And>r. r_total_drawings (f r) = r_total_drawings r" "\<And>r. r_id (f r) = r_id r"
  shows "run_inv a n0 t c (update_analysis a f w)"
  by (rule run_inv_update [OF assms(1) order_refl]) (simp_all add: assms(2-))

lemma pipeline_failed_inv:
  assumes "run_inv a n0 t c w" "c \<le> t"
  shows "run_inv a n0 t c (pipeline_failed env a e w)"
proof -
  let ?w1 = "print (LogPipelineFailed (str_of_exn env e)) w"
  have "run_inv a n0 t c ?w1" using assms(1) run_inv_cong [of ?w1 w] by simp
  then have "run_inv a n0 t c (update_analysis a
      (\<lambda>r. r\<lparr>r_status := ''failed'', r_error_message := Some (take 500 (str_of_exn env e))\<rparr>) ?w1)"
    by (rule run_inv_update_same) simp_all
  then show ?thesis unfolding pipeline_failed_def using assms(2) by (rule run_inv_commit)
qed

lemma pipeline_phases_inv:
  assumes "run_inv a n0 t 0 w" "int (length (select_unanalyzed w uid)) \<le> t"
  shows "\<exists>c. c \<le> t \<and> run_inv a n0 t c (pipeline_phases env uid a w)"
proof -
  obtain res w1 where p1: "phase1_batch_analysis env uid a w = (res, w1)"
    by (cases "phase1_batch_analysis env uid a w")
  from phase1_inv [OF assms, of env] p1 obtain c where c: "c \<le> t" "run_inv a n0 t c w1"
    by auto
  show ?thesis
  proof (cases res)
    case (Some e)
    with pipeline_failed_inv [OF c(2,1), of env e] c(1) p1 show ?thesis
      by (auto simp: pipeline_phases_def)
  next
    case None
    let ?w2 = "commit (update_analysis a (\<lambda>r. r\<lparr>r_phase := Some ''lens_discovery''\<rparr>) w1)"
    have "run_inv a n0 t c (update_analysis a (\<lambda>r. r\<lparr>r_phase := Some ''lens_discovery''\<rparr>) w1)"
      by (rule run_inv_update_same [OF c(2)]) simp_all
    then have w2: "run_inv a n0 t c ?w2" using c(1) by (rule run_inv_commit)
    obtain r2 w3 where p2: "phase2_lens_discovery env uid a ?w2 = (r2, w3)"
      by (cases "phase2_lens_discovery env uid a ?w2")
    have w3: "run_inv a n0 t c w3" using phase2_inv [OF w2 c(1), of env uid a] p2 by simp
    show ?thesis
    proof (cases r2)
      case (Some e)
      with pipeline_failed_inv [OF w3 c(1), of env e] c(1) p1 p2 None show ?thesis
        by (auto simp: pipeline_phases_def Let_def)
    next
      case r2n: None
      have "run_inv a n0 t c (update_analysis a
          (\<lambda>r. r\<lparr>r_status := ''complete'', r_phase := Some ''done'',
                 r_completed_at := Some (now env)\<rparr>) w3)"
        by (rule run_inv_update_same [OF w3]) simp_all
      then have "run_inv a n0 t c (commit (update_analysis a
          (\<lambda>r. r\<lparr>r_status := ''complete'', r_phase := Some ''done'',
                 r_completed_at := Some (now env)\<rparr>) w3))"
        using c(1) by (rule run_inv_commit)
      with c(1) p1 p2 None r2n show ?thesis
        by (auto simp: pipeline_phases_def Let_def)
    qed
  qed
qed

lemma pipeline_start_inv:
  assumes "\<forall>r\<in>set (archive_analyses w). r_id r = a \<longrightarrow> r_analyzed_count r = 0"
  shows "run_inv a (length (committed w))
           (int (length (filter (\<lambda>d. d_user_id d = uid) (drawings w)))) 0
           (pipeline_start uid a w)"
proof -
  let ?t = "int (length (filter (\<lambda>d. d_user_id d = uid) (drawings w)))"
  let ?f = "\<lambda>r. r\<lparr>r_status := ''running'', r_phase := Some ''batch_analysis'',
                     r_total_drawings := ?t\<rparr>"
  let ?w1 = "update_analysis a ?f w"
  have cur: "\<forall>r\<in>set (archive_analyses ?w1).
               r_id r = a \<longrightarrow> r_analyzed_count r = 0 \<and> r_total_drawings r = ?t"
  proof (intro ballI impI)
    fix r assume r: "r \<in> set (archive_analyses ?w1)" and id: "r_id r = a"
    from r obtain x where x: "x \<in> set (archive_analyses w)" "r = (if r_id x = a then ?f x else x)"
      by (rule update_analysis_row)
    show "r_analyzed_count r = 0 \<and> r_total_drawings r = ?t"
    proof (cases "r_id x = a")
      case True
      with x assms show ?thesis by simp
    next
      case False
      with x id show ?thesis by simp
    qed
  qed
  have "run_inv a (length (committed w)) ?t 0 ?w1"
    unfolding run_inv_def using cur by (simp add: counts_of_def)
  then have "run_inv a (length (committed w)) ?t 0 (commit ?w1)"
    by (rule run_inv_commit) simp
  then show ?thesis by (simp add: pipeline_start_def Let_def)
qed

lemma next_id_fresh: "x \<in> set ids \<Longrightarrow> x < next_id s ids"
proof -
  have "x \<in> set ids \<Longrightarrow> x \<le> fold max ids s" and "s \<le> fold max ids s" for s
  proof (induction ids arbitrary: s)
    case Nil
    { case 1 then show ?case by simp }
    { case 2 show ?case by simp }
  next
    case (Cons a ids)
    { case 1
      then show ?case using Cons.IH(1) [of "max a s"] Cons.IH(2) [of "max a s"] by auto }
    { case 2 show ?case using Cons.IH(2) [of "max a s"] by simp }
  qed
  then show "x \<in> set ids \<Longrightarrow> x < next_id s ids" by (simp add: next_id_def less_Suc_eq_le) 
qed


lemma pipeline_start_keeps_inv:
  assumes "run_inv a n0 t 0 w"
  shows "run_inv a n0 (int (length (filter (\<lambda>d. d_user_id d = uid) (drawings w)))) 0
           (pipeline_start uid a w)"
proof -
  let ?t = "int (length (filter (\<lambda>d. d_user_id d = uid) (drawings w)))"
  let ?f = "\<lambda>r. r\<lparr>r_status := ''running'', r_phase := Some ''batch_analysis'',
                     r_total_drawings := ?t\<rparr>"
  let ?w1 = "update_analysis a ?f w"
  from assms have n0: "n0 \<le> length (committed w)"
    and cur: "\<forall>r\<in>set (archive_analyses w).
           r_id r = a \<longrightarrow> r_analyzed_count r = 0 \<and> r_total_drawings r = t"
    and srt: "sorted (counts_of a (drop n0 (committed w)))"
    and le: "\<forall>v\<in>set (counts_of a (drop n0 (committed w))). v \<le> 0"
    and bd: "\<forall>snap\<in>set (drop n0 (committed w)). \<forall>r\<in>set snap.
           r_id r = a \<longrightarrow> r_analyzed_count r \<le> r_total_drawings r"
    unfolding run_inv_def by blast+
  have cur': "\<forall>r\<in>set (archive_analyses ?w1).
               r_id r = a \<longrightarrow> r_analyzed_count r = 0 \<and> r_total_drawings r = ?t"
  proof (intro ballI impI)
    fix r assume r: "r \<in> set (archive_analyses ?w1)" and id: "r_id r = a"
    from r obtain x where x: "x \<in> set (archive_analyses w)" "r = (if r_id x = a then ?f x else x)"
      by (rule update_analysis_row)
    show "r_analyzed_count r = 0 \<and> r_total_drawings r = ?t"
    proof (cases "r_id x = a")
      case True
      with x cur show ?thesis by simp
    next
      case False
      with x id show ?thesis by simp
    qed
  qed
  have "run_inv a n0 ?t 0 ?w1"
    unfolding run_inv_def using n0 cur' srt le bd by simp
  then have "run_inv a n0 ?t 0 (commit ?w1)"
    by (rule run_inv_commit) simp
  then show ?thesis by (simp add: pipeline_start_def Let_def)
qed

lemma trigger_inv:
  assumes "trigger_analysis env uid w0 = (Started a, w1)"
  shows "run_inv a (length (committed w0)) 0 0 w1"
proof -
  let ?a = "next_id (seq_analyses w0) (map r_id (archive_analyses w0))"
  let ?row = "\<lparr>r_id = ?a, r_user_id = uid, r_status = ''pending'',
                r_phase = None, r_total_drawings = 0, r_analyzed_count = 0,
                r_error_message = None,
                r_model_used = Some (model_name (settings_of env)),
                r_completed_at = None\<rparr>"
  from assms have a: "a = ?a"
    and aa: "archive_analyses w1 = archive_analyses w0 @ [?row]"
    and cm: "committed w1 = committed w0 @ [archive_analyses w0 @ [?row]]"
    by (auto simp: trigger_analysis_def Let_def commit_def split: option.splits if_splits)
  have fresh: "\<forall>r\<in>set (archive_analyses w0). r_id r \<noteq> a"
    using next_id_fresh [of _ "map r_id (archive_analyses w0)" "seq_analyses w0"] a by fastforce
  have f: "filter (\<lambda>r. r_id r = a) (archive_analyses w0) = []"
    using fresh by (simp add: filter_empty_conv)
  show ?thesis
    unfolding run_inv_def aa cm using fresh a
    by (simp add: counts_of_def f)
qed

lemma run_lifetime_inv:
  assumes "trigger_analysis env uid w0 = (Started a, w1)"
  shows "\<exists>t c. run_inv a (length (committed w0)) t c (run_full_pipeline env uid a w1)"
proof -
  let ?t = "int (length (filter (\<lambda>d. d_user_id d = uid) (drawings w1)))"
  let ?w2 = "pipeline_start uid a w1"
  have i2: "run_inv a (length (committed w0)) ?t 0 ?w2"
    using trigger_inv [OF assms] by (rule pipeline_start_keeps_inv)
  have "drawings ?w2 = drawings w1" by (simp add: pipeline_start_def Let_def)
  then have "length (select_unanalyzed ?w2 uid)
               \<le> length (filter (\<lambda>d. d_user_id d = uid) (drawings w1))"
    using length_select_unanalyzed [of ?w2 uid] length_filter_mono
    by (simp add: select_unanalyzed_def)
  then have "int (length (select_unanalyzed ?w2 uid)) \<le> ?t" by simp
  from pipeline_phases_inv [OF i2 this, of env] show ?thesis
    unfolding run_full_pipeline_def by blast
qed

text \<open>
  Claim C4. Over the lifetime of a run, from the trigger that creates it to the end of
  its pipeline, the values of \<open>analyzed_count\<close> that are committed for the run, in the
  order of the commits, are non-decreasing, and in every committed state the run's
  \<open>analyzed_count\<close> is at most its \<open>total_drawings\<close>.
\<close>

theorem analyzed_count_monotone_bounded:
  assumes "trigger_analysis env uid w0 = (Started aid, w1)"
  shows "sorted (counts_of aid
            (drop (length (committed w0)) (committed (run_full_pipeline env uid aid w1))))
       \<and> (\<forall>snap\<in>set (drop (length (committed w0))
                        (committed (run_full_pipeline env uid aid w1))).
            \<forall>r\<in>set snap. r_id r = aid \<longrightarrow> r_analyzed_count r \<le> r_total_drawings r)"
  using run_lifetime_inv [OF assms] unfolding run_inv_def by blast

lemma sel_w: "drawings w = drawings world1 \<Longrightarrow> select_unanalyzed w 1 = [drawing_c, drawing_b]"
  using sel1 by (simp add: select_unanalyzed_def)

lemma trigger_world1:
  "trigger_analysis env_unreadable 1 world1 = (Started 1, world_triggered)"
  by (simp add: trigger_analysis_def world1_def world0_def next_id_def Let_def commit_def run0_def
      env_unreadable_fields env0_def world_triggered_def)

lemma start_triggered:
  "drawings (pipeline_start 1 1 world_triggered) = drawings world1"
  "archive_analyses (pipeline_start 1 1 world_triggered)
     = [run0\<lparr>r_status := ''running'', r_phase := Some ''batch_analysis'',
             r_total_drawings := 3\<rparr>]"
  "committed (pipeline_start 1 1 world_triggered)
     = [[run0], [run0\<lparr>r_status := ''running'', r_phase := Some ''batch_analysis'',
                      r_total_drawings := 3\<rparr>]]"
  by (simp_all add: pipeline_start_def world_triggered_def update_analysis_def commit_def Let_def run0_def)
    (simp_all add: world1_def world0_def drawing0_def drawing_a_def drawing_b_def drawing_c_def)

lemma phase1_triggered:
  "fst (phase1_batch_analysis env_unreadable 1 1 (pipeline_start 1 1 world_triggered)) = None"
  "archive_analyses (snd (phase1_batch_analysis env_unreadable 1 1
        (pipeline_start 1 1 world_triggered)))
     = [run0\<lparr>r_status := ''running'', r_phase := Some ''batch_analysis'',
             r_total_drawings := 3, r_analyzed_count := 2\<rparr>]"
  "committed (snd (phase1_batch_analysis env_unreadable 1 1
        (pipeline_start 1 1 world_triggered)))
     = [[run0],
        [run0\<lparr>r_status := ''running'', r_phase := Some ''batch_analysis'',
              r_total_drawings := 3\<rparr>],
        [run0\<lparr>r_status := ''running'', r_phase := Some ''batch_analysis'',
              r_total_drawings := 3, r_analyzed_count := 2\<rparr>]]"
    apply (simp_all add: phase1_batch_analysis_def sel_w start_triggered(1) env_unreadable_fields bs0 py_range_one Let_def)
    apply (simp_all add: phase1_batch_def load_two parse_ok env_unreadable_fields Let_def dict_get_def
      lookup_filename_def del: load_images.simps)
    apply (simp_all add: start_triggered update_analysis_def commit_def run0_def)
  done

lemma phase2_triggered:
  "phase2_lens_discovery env_unreadable 1 1 (world_at_phase2 env_unreadable 1 1 world_triggered)
     = (Some (RuntimeError ''Lens discovery API call failed: timeout''),
        world_at_phase2 env_unreadable 1 1 world_triggered)"
proof -
  let ?w = "world_at_phase2 env_unreadable 1 1 world_triggered"
  have "drawing_a \<in> set (drawings (snd (phase1_batch_analysis env_unreadable 1 1
        (pipeline_start 1 1 world_triggered))))"
    by (rule phase1_keeps_analyzed)
      (simp_all add: start_triggered(1) world1_def world0_def drawing0_def drawing_a_def
        drawing_b_def drawing_c_def)
  then have "drawing_a \<in> set (drawings ?w)" by (simp add: world_at_phase2_def)
  then have "drawing_a \<in> set (select_analyzed ?w 1)"
    by (simp add: select_analyzed_def drawing_a_def drawing0_def)
  then have ne: "select_analyzed ?w 1 \<noteq> []" by auto
  have "synthesize_text env_unreadable
           (render_lens_discovery env_unreadable (year_range_of (select_analyzed ?w 1))
              (length (select_analyzed ?w 1)) (concat (map summary_line (select_analyzed ?w 1))))
           (max_tokens_lens_discovery (settings_of env_unreadable)) = Raises ''timeout''"
    by (simp add: env_unreadable_def env_ok_def env0_def)
  from phase2_call_fails [OF ne this] show ?thesis by simp
qed

lemma run_triggered:
  "committed (run_full_pipeline env_unreadable 1 1 world_triggered)
     = [[run0],
        [run0\<lparr>r_status := ''running'', r_phase := Some ''batch_analysis'',
              r_total_drawings := 3\<rparr>],
        [run0\<lparr>r_status := ''running'', r_phase := Some ''batch_analysis'',
              r_total_drawings := 3, r_analyzed_count := 2\<rparr>],
        [run0\<lparr>r_status := ''running'', r_phase := Some ''lens_discovery'',
              r_total_drawings := 3, r_analyzed_count := 2\<rparr>],
        [run0\<lparr>r_status := ''failed'', r_phase := Some ''lens_discovery'',
              r_total_drawings := 3, r_analyzed_count := 2,
              r_error_message := Some ''Lens discovery API call failed: timeout''\<rparr>]]"
proof -
  obtain w1 where p1: "phase1_batch_analysis env_unreadable 1 1 (pipeline_start 1 1 world_triggered)
      = (None, w1)"
    using phase1_triggered(1)
    by (cases "phase1_batch_analysis env_unreadable 1 1 (pipeline_start 1 1 world_triggered)") auto
  have w1: "archive_analyses w1 = [run0\<lparr>r_status := ''running'', r_phase := Some ''batch_analysis'',
             r_total_drawings := 3, r_analyzed_count := 2\<rparr>]"
    "committed w1 = [[run0],
        [run0\<lparr>r_status := ''running'', r_phase := Some ''batch_analysis'',
              r_total_drawings := 3\<rparr>],
        [run0\<lparr>r_status := ''running'', r_phase := Some ''batch_analysis'',
              r_total_drawings := 3, r_analyzed_count := 2\<rparr>]]"
    using phase1_triggered(2,3) by (simp_all add: p1)
  have w2: "world_at_phase2 env_unreadable 1 1 world_triggered
      = commit (update_analysis 1 (\<lambda>r. r\<lparr>r_phase := Some ''lens_discovery''\<rparr>) w1)"
    by (simp add: world_at_phase2_def p1)
  have "run_full_pipeline env_unreadable 1 1 world_triggered
      = pipeline_failed env_unreadable 1 (RuntimeError ''Lens discovery API call failed: timeout'')
          (commit (update_analysis 1 (\<lambda>r. r\<lparr>r_phase := Some ''lens_discovery''\<rparr>) w1))"
    using phase2_triggered [unfolded w2]
    by (simp add: run_full_pipeline_def pipeline_phases_def p1 Let_def)
  then show ?thesis
    by (simp add: pipeline_failed_def update_analysis_def commit_def str_of_exn_def w1 run0_def)
qed

theorem analyzed_count_monotone_bounded_witness:
  "trigger_analysis env_unreadable 1 world1 = (Started 1, world_triggered)
   \<and> counts_of 1 (drop (length (committed world1))
        (committed (run_full_pipeline env_unreadable 1 1 world_triggered))) = [0, 0, 2, 2, 2]
   \<and> sorted (counts_of 1 (drop (length (committed world1))
        (committed (run_full_pipeline env_unreadable 1 1 world_triggered))))
   \<and> filter (\<lambda>r. r_id r = 1 \<and> \<not> r_analyzed_count r \<le> r_total_drawings r)
        (concat (drop (length (committed world1))
           (committed (run_full_pipeline env_unreadable 1 1 world_triggered)))) = []"
proof -
  note t = analyzed_count_monotone_bounded [OF trigger_world1]
  have c: "counts_of 1 (drop (length (committed world1))
        (committed (run_full_pipeline env_unreadable 1 1 world_triggered))) = [0, 0, 2, 2, 2]"
    by (simp add: run_triggered counts_of_def world1_def world0_def run0_def)
  from t have "\<forall>snap\<in>set (drop (length (committed world1))
                        (committed (run_full_pipeline env_unreadable 1 1 world_triggered))).
            \<forall>r\<in>set snap. r_id r = 1 \<longrightarrow> r_analyzed_count r \<le> r_total_drawings r"
    by blast
  then have f: "filter (\<lambda>r. r_id r = 1 \<and> \<not> r_analyzed_count r \<le> r_total_drawings r)
        (concat (drop (length (committed world1))
           (committed (run_full_pipeline env_unreadable 1 1 world_triggered)))) = []"
    by (simp only: filter_empty_conv set_concat) blast
  from t have s: "sorted (counts_of 1 (drop (length (committed world1))
        (committed (run_full_pipeline env_unreadable 1 1 world_triggered))))" by blast
  from trigger_world1 c s f show ?thesis by (intro conjI)
qed

end
